theory Spec2Isabelle
  imports Complex_Main "HOL-Library.Multiset"
begin

section \<open>JavaScript values and string primitives\<close>

text \<open>
  The service is an Express application over Mongoose models. Request bodies and
  response bodies are JavaScript values; the model keeps the constructors the routes
  can see. Object ids are opaque (a natural number stands for the 12 bytes), dates are
  milliseconds since the epoch, numbers are the integral ones. An object is the list
  of its keys and values in insertion order, each key once. Strings are byte strings:
  lengths count bytes where JavaScript counts UTF-16 units, which agrees on ASCII.
  The bookkeeping of Mongoose (the version key, the ids of subdocuments) is left out
  of the documents.
\<close>

type_synonym objectId = nat
type_synonym date = int

datatype js =
    JNull
  | JBool bool
  | JNum int
  | JStr string
  | JDate date
  | JId objectId
  | JArr "js list"
  | JObj "(string \<times> js) list"

text \<open>\<^verbatim>\<open>s.startsWith(p)\<close>, with the pattern as first argument.\<close>

fun startsWith :: "string \<Rightarrow> string \<Rightarrow> bool" where
  "startsWith [] s = True"
| "startsWith (p # ps) [] = False"
| "startsWith (p # ps) (c # cs) = (p = c \<and> startsWith ps cs)"

text \<open>
  \<^verbatim>\<open>s.replace(pat, rep)\<close> with a string pattern: only the first occurrence of
  \<open>pat\<close>, wherever it stands, is replaced.
\<close>

fun replace_first :: "string \<Rightarrow> string \<Rightarrow> string \<Rightarrow> string" where
  "replace_first pat rep [] = (if pat = [] then rep else [])"
| "replace_first pat rep (c # cs) =
     (if startsWith pat (c # cs) then rep @ drop (length pat) (c # cs)
      else c # replace_first pat rep cs)"

text \<open>\<^verbatim>\<open>s.includes(p)\<close>: \<open>p\<close> occurs somewhere in \<open>s\<close>.\<close>

fun str_includes :: "string \<Rightarrow> string \<Rightarrow> bool" where
  "str_includes p [] = (p = [])"
| "str_includes p (c # cs) = (startsWith p (c # cs) \<or> str_includes p cs)"

text \<open>
  \<^verbatim>\<open>trim\<close> removes white space at both ends and \<^verbatim>\<open>toLowerCase\<close> maps the
  upper-case letters; both are modelled on ASCII.
\<close>

definition isWhitespace :: "char \<Rightarrow> bool" where
  "isWhitespace c = (let n = (of_char c :: nat) in (9 \<le> n \<and> n \<le> 13) \<or> n = 32)"

definition trim :: "string \<Rightarrow> string" where
  "trim s = rev (dropWhile isWhitespace (rev (dropWhile isWhitespace s)))"

definition lowerChar :: "char \<Rightarrow> char" where
  "lowerChar c = (let n = (of_char c :: nat) in if 65 \<le> n \<and> n \<le> 90 then char_of (n + 32) else c)"

definition toLowerCase :: "string \<Rightarrow> string" where
  "toLowerCase s = map lowerChar s"

definition delete_key :: "string \<Rightarrow> (string \<times> js) list \<Rightarrow> (string \<times> js) list" where
  "delete_key k kvs = filter (\<lambda>kv. fst kv \<noteq> k) kvs"

section \<open>Regular expressions\<close>

text \<open>
  The user schema validates the email with the regular expression
  \<^verbatim>\<open>/^\w+([.-]?\w+)*@\w+([.-]?\w+)*(\.\w{2,3})+$/\<close>. It is anchored at both ends, so
  \<^verbatim>\<open>test\<close> is a match of the whole string, decided here by derivatives.
\<close>

datatype cls = Word | Lit char | OneOf "char list"

definition isWord :: "char \<Rightarrow> bool" where
  "isWord c = (let n = (of_char c :: nat) in
     (48 \<le> n \<and> n \<le> 57) \<or> (65 \<le> n \<and> n \<le> 90) \<or> (97 \<le> n \<and> n \<le> 122) \<or> n = 95)"

fun cls_has :: "cls \<Rightarrow> char \<Rightarrow> bool" where
  "cls_has Word c = isWord c"
| "cls_has (Lit d) c = (c = d)"
| "cls_has (OneOf ds) c = (c \<in> set ds)"

datatype rx = Zero | One | Atom cls | Alt rx rx | Seq rx rx | Star rx

fun nullable :: "rx \<Rightarrow> bool" where
  "nullable Zero = False"
| "nullable One = True"
| "nullable (Atom a) = False"
| "nullable (Alt r s) = (nullable r \<or> nullable s)"
| "nullable (Seq r s) = (nullable r \<and> nullable s)"
| "nullable (Star r) = True"

fun deriv :: "char \<Rightarrow> rx \<Rightarrow> rx" where
  "deriv c Zero = Zero"
| "deriv c One = Zero"
| "deriv c (Atom a) = (if cls_has a c then One else Zero)"
| "deriv c (Alt r s) = Alt (deriv c r) (deriv c s)"
| "deriv c (Seq r s) =
     (if nullable r then Alt (Seq (deriv c r) s) (deriv c s) else Seq (deriv c r) s)"
| "deriv c (Star r) = Seq (deriv c r) (Star r)"

definition rx_test :: "rx \<Rightarrow> string \<Rightarrow> bool" where
  "rx_test r s = nullable (foldl (\<lambda>q c. deriv c q) r s)"

definition rx_plus :: "rx \<Rightarrow> rx" where
  "rx_plus r = Seq r (Star r)"

definition rx_opt :: "rx \<Rightarrow> rx" where
  "rx_opt r = Alt One r"

definition email_regex :: rx where
  "email_regex =
     (let w = rx_plus (Atom Word);
          part = Seq w (Star (Seq (rx_opt (Atom (OneOf ''.-''))) w));
          tld = Seq (Atom (Lit CHR ''.''))
                  (Seq (Atom Word) (Seq (Atom Word) (rx_opt (Atom Word))))
      in Seq part (Seq (Atom (Lit CHR ''@'')) (Seq part (rx_plus tld))))"

section \<open>Library functions\<close>

text \<open>
  The code calls jsonwebtoken, bcryptjs and Joi. What they compute is not part of the
  repository, so the functions are parameters of the model:
  \<^item> \<open>jwt_encode\<close> signs a set of claims with the server's secret and \<open>jwt_decode\<close>
    checks the signature with the same secret and parses the claims (\<open>None\<close> for a
    malformed or forged token);
  \<^item> \<open>bcrypt_hash\<close> hashes a password with a salt and \<open>bcrypt_compare\<close> compares a
    candidate with a stored hash;
  \<^item> \<open>joi_email\<close> is Joi's email check, \<open>joi_message\<close> the text of an error of a given
    code at a given key, and \<open>date_parse\<close> the conversion of a string to a date.
\<close>

record claims =
  c_id :: objectId
  c_email :: string
  c_role :: string
  c_iat :: int
  c_exp :: int

datatype joi_code =
    any_required | any_only | string_base | string_empty | string_min | string_max
  | string_email | date_base | date_greater | object_unknown | object_base

record libs =
  jwt_encode :: "claims \<Rightarrow> string"
  jwt_decode :: "string \<Rightarrow> claims option"
  bcrypt_hash :: "string \<Rightarrow> string \<Rightarrow> string"
  bcrypt_compare :: "string \<Rightarrow> string \<Rightarrow> bool"
  joi_email :: "string \<Rightarrow> bool"
  joi_message :: "string \<Rightarrow> joi_code \<Rightarrow> string"
  date_parse :: "string \<Rightarrow> date option"

text \<open>
  \<^verbatim>\<open>jwt.sign(payload, secret, { expiresIn: '7d' })\<close> stamps the claims with the
  issuing second and an expiry seven days later; \<^verbatim>\<open>jwt.verify\<close> throws on a bad
  token and on one whose expiry is not after the current second.
\<close>

definition stamp :: "objectId \<Rightarrow> string \<Rightarrow> string \<Rightarrow> date \<Rightarrow> claims" where
  "stamp i e r now =
     \<lparr>c_id = i, c_email = e, c_role = r, c_iat = now div 1000, c_exp = now div 1000 + 604800\<rparr>"

definition jwt_sign :: "libs \<Rightarrow> objectId \<Rightarrow> string \<Rightarrow> string \<Rightarrow> date \<Rightarrow> string" where
  "jwt_sign env i e r now = jwt_encode env (stamp i e r now)"

definition jwt_verify :: "libs \<Rightarrow> string \<Rightarrow> date \<Rightarrow> claims option" where
  "jwt_verify env token now =
     (case jwt_decode env token of
        None \<Rightarrow> None
      | Some c \<Rightarrow> if now div 1000 \<ge> c_exp c then None else Some c)"

section \<open>The stored documents\<close>

record user =
  user_id :: objectId
  name :: string
  email :: string
  password :: string
  role :: string
  user_createdAt :: date
  tokens :: "string list"

record task =
  task_id :: objectId
  title :: string
  description :: "string option"
  status :: string
  priority :: string
  dueDate :: "date option"
  owner :: objectId
  createdAt :: date
  updatedAt :: date

record database =
  users :: "user list"
  tasks :: "task list"

text \<open>
  A handler either sends a response (a status and a JSON body) or passes an error to
  \<^verbatim>\<open>next\<close>; the error handler it reaches is not among the sources.
\<close>

datatype app_error = ValidationFailed string | DuplicateKey | DocumentNotFound | QueryFailed

datatype response = Response nat js | NextError app_error

definition error_body :: "string \<Rightarrow> js" where
  "error_body msg = JObj [(''error'', JStr msg)]"

section \<open>The user model\<close>

text \<open>
  The validators of the user schema, as Mongoose runs them on \<^verbatim>\<open>save\<close>: every loaded
  or modified path is checked. The password is checked only when it is part of the
  document (\<^verbatim>\<open>select: false\<close> leaves it out of a query result).
\<close>

definition validate_user :: "bool \<Rightarrow> user \<Rightarrow> string option" where
  "validate_user selected u =
     (if name u = [] then Some ''Name is required''
      else if length (name u) > 50 then Some ''Name cannot exceed 50 characters''
      else if email u = [] then Some ''Email is required''
      else if \<not> rx_test email_regex (email u) then Some ''Please enter a valid email''
      else if selected \<and> password u = [] then Some ''Password is required''
      else if selected \<and> length (password u) < 6
        then Some ''Password must be at least 6 characters''
      else if role u \<notin> set [''user'', ''admin''] then Some ''role''
      else if list_ex (\<lambda>t. t = []) (tokens u) then Some ''tokens.token''
      else None)"

text \<open>The pre-save hook: the password is hashed when, and only when, it was modified.\<close>

definition pre_save :: "libs \<Rightarrow> string \<Rightarrow> bool \<Rightarrow> user \<Rightarrow> user" where
  "pre_save env salt modified u =
     (if \<not> modified then u else u\<lparr>password := bcrypt_hash env (password u) salt\<rparr>)"

text \<open>
  \<^verbatim>\<open>save\<close> of a new document validates, runs the hook and inserts; the collection has
  unique indexes on the id and on the email. \<^verbatim>\<open>save\<close> of a loaded document validates,
  runs the hook (which returns at once: no salt is drawn) and writes the document back
  over the stored one of the same id; it throws when that one is gone.
\<close>

definition save_new_user :: "libs \<Rightarrow> string \<Rightarrow> user \<Rightarrow> user list \<Rightarrow> app_error + (user \<times> user list)" where
  "save_new_user env salt u us =
     (case validate_user True u of
        Some m \<Rightarrow> Inl (ValidationFailed m)
      | None \<Rightarrow>
          (let u' = pre_save env salt True u in
           if list_ex (\<lambda>v. user_id v = user_id u' \<or> email v = email u') us
           then Inl DuplicateKey
           else Inr (u', us @ [u'])))"

definition save_user :: "libs \<Rightarrow> bool \<Rightarrow> user \<Rightarrow> user list \<Rightarrow> app_error + (user \<times> user list)" where
  "save_user env selected u us =
     (case validate_user selected u of
        Some m \<Rightarrow> Inl (ValidationFailed m)
      | None \<Rightarrow>
          (let u' = pre_save env [] False u in
           if \<not> list_ex (\<lambda>v. user_id v = user_id u') us then Inl DocumentNotFound
           else Inr (u', map (\<lambda>v. if user_id v = user_id u' then u' else v) us)))"

text \<open>\<^verbatim>\<open>generateAuthToken\<close>: sign, append the token to the document, save, return it.\<close>

definition generateAuthToken ::
  "libs \<Rightarrow> bool \<Rightarrow> date \<Rightarrow> user \<Rightarrow> user list \<Rightarrow> app_error + (string \<times> user \<times> user list)" where
  "generateAuthToken env selected now u us =
     (let token = jwt_sign env (user_id u) (email u) (role u) now;
          u1 = u\<lparr>tokens := tokens u @ [token]\<rparr>
      in case save_user env selected u1 us of
           Inl e \<Rightarrow> Inl e
         | Inr (u2, us') \<Rightarrow> Inr (token, u2, us'))"

definition comparePassword :: "libs \<Rightarrow> user \<Rightarrow> string \<Rightarrow> bool" where
  "comparePassword env u candidatePassword = bcrypt_compare env candidatePassword (password u)"

text \<open>
  \<^verbatim>\<open>toObject\<close> lists the paths of the document (the password only when it is part of
  it); \<^verbatim>\<open>toJSON\<close> deletes the password and the tokens from that object.
\<close>

definition toObject :: "bool \<Rightarrow> user \<Rightarrow> (string \<times> js) list" where
  "toObject selected u =
     [(''_id'', JId (user_id u)), (''name'', JStr (name u)), (''email'', JStr (email u))]
     @ (if selected then [(''password'', JStr (password u))] else [])
     @ [(''role'', JStr (role u)), (''createdAt'', JDate (user_createdAt u)),
        (''tokens'', JArr (map (\<lambda>t. JObj [(''token'', JStr t)]) (tokens u)))]"

definition toJSON :: "bool \<Rightarrow> user \<Rightarrow> js" where
  "toJSON selected u = JObj (delete_key ''tokens'' (delete_key ''password'' (toObject selected u)))"

section \<open>The authentication middleware\<close>

text \<open>
  \<^verbatim>\<open>auth\<close> reads the Authorization header (absent: \<open>None\<close>), removes the first
  \<^verbatim>\<open>'Bearer '\<close>, verifies what is left and looks for a user with the decoded id that
  still lists this very token. It answers 401 itself or hands the user and the token
  to the route.
\<close>

definition auth :: "libs \<Rightarrow> string option \<Rightarrow> date \<Rightarrow> database \<Rightarrow> response + (user \<times> string)" where
  "auth env header now db =
     (case map_option (replace_first ''Bearer '' []) header of
        None \<Rightarrow> Inl (Response 401 (error_body ''No token, authorization denied''))
      | Some token \<Rightarrow>
          if token = [] then Inl (Response 401 (error_body ''No token, authorization denied''))
          else (case jwt_verify env token now of
                  None \<Rightarrow> Inl (Response 401 (error_body ''Token is not valid''))
                | Some decoded \<Rightarrow>
                    (case find (\<lambda>u. user_id u = c_id decoded \<and> token \<in> set (tokens u)) (users db) of
                       None \<Rightarrow> Inl (Response 401 (error_body ''Token is not valid''))
                     | Some u \<Rightarrow> Inr (u, token))))"

text \<open>
  What the middleware does with the token once it has it: verify, look the user up,
  answer 401 or hand over. \<open>auth\<close> is this applied to the token it extracts (lemma
  \<open>auth_token\<close> below).
\<close>

definition verify_and_find :: "libs \<Rightarrow> string \<Rightarrow> date \<Rightarrow> database \<Rightarrow> response + (user \<times> string)" where
  "verify_and_find env token now db =
     (case jwt_verify env token now of
        None \<Rightarrow> Inl (Response 401 (error_body ''Token is not valid''))
      | Some decoded \<Rightarrow>
          (case find (\<lambda>u. user_id u = c_id decoded \<and> token \<in> set (tokens u)) (users db) of
             None \<Rightarrow> Inl (Response 401 (error_body ''Token is not valid''))
           | Some u \<Rightarrow> Inr (u, token)))"

section \<open>Request validation\<close>

text \<open>
  The Joi schemas of the routes. An object schema checks its keys in the order they are
  declared and stops at the first error; keys the schema does not declare are an error
  found after the declared ones. A string schema rejects the empty string, an
  allow-list (\<^verbatim>\<open>valid\<close>) is checked before the type, and a date schema converts
  numbers and strings. The result is the failing key with the code of the error, or the
  validated value.
\<close>

type_synonym joi_error = "string \<times> joi_code"

definition joi_string :: "js \<Rightarrow> joi_code + string" where
  "joi_string v = (case v of JStr s \<Rightarrow> if s = [] then Inl string_empty else Inr s | _ \<Rightarrow> Inl string_base)"

definition joi_valid :: "string list \<Rightarrow> js \<Rightarrow> joi_code + string" where
  "joi_valid allowed v = (case v of JStr s \<Rightarrow> if s \<in> set allowed then Inr s else Inl any_only | _ \<Rightarrow> Inl any_only)"

definition joi_date :: "libs \<Rightarrow> js \<Rightarrow> date option" where
  "joi_date env v =
     (case v of
        JDate d \<Rightarrow> Some d
      | JNum n \<Rightarrow> if \<bar>n\<bar> \<le> 8640000000000000 then Some n else None
      | JStr s \<Rightarrow> date_parse env s
      | _ \<Rightarrow> None)"

definition joi_date_greater_now :: "libs \<Rightarrow> date \<Rightarrow> js \<Rightarrow> joi_code + date" where
  "joi_date_greater_now env now v =
     (case joi_date env v of
        None \<Rightarrow> Inl date_base
      | Some d \<Rightarrow> if d > now then Inr d else Inl date_greater)"

definition joi_length :: "nat \<Rightarrow> nat option \<Rightarrow> string \<Rightarrow> joi_code + string" where
  "joi_length lo hi s =
     (if length s < lo then Inl string_min
      else case hi of
             None \<Rightarrow> Inr s
           | Some h \<Rightarrow> if length s > h then Inl string_max else Inr s)"

definition and_then :: "'e + 'a \<Rightarrow> ('a \<Rightarrow> 'e + 'b) \<Rightarrow> 'e + 'b" where
  "and_then r f = (case r of Inl e \<Rightarrow> Inl e | Inr v \<Rightarrow> f v)"

definition required :: "(string \<times> js) list \<Rightarrow> string \<Rightarrow> (js \<Rightarrow> joi_code + 'a) \<Rightarrow> joi_error + 'a" where
  "required kvs k check =
     (case map_of kvs k of
        None \<Rightarrow> Inl (k, any_required)
      | Some v \<Rightarrow> (case check v of Inl c \<Rightarrow> Inl (k, c) | Inr x \<Rightarrow> Inr x))"

definition optional :: "(string \<times> js) list \<Rightarrow> string \<Rightarrow> (js \<Rightarrow> joi_code + 'a) \<Rightarrow> joi_error + 'a option" where
  "optional kvs k check =
     (case map_of kvs k of
        None \<Rightarrow> Inr None
      | Some v \<Rightarrow> (case check v of Inl c \<Rightarrow> Inl (k, c) | Inr x \<Rightarrow> Inr (Some x)))"

definition no_unknown :: "string list \<Rightarrow> (string \<times> js) list \<Rightarrow> 'a \<Rightarrow> joi_error + 'a" where
  "no_unknown declared kvs x =
     (case find (\<lambda>k. k \<notin> set declared) (map fst kvs) of
        Some k \<Rightarrow> Inl (k, object_unknown)
      | None \<Rightarrow> Inr x)"

definition registerSchema :: "libs \<Rightarrow> js \<Rightarrow> joi_error + (string \<times> string \<times> string)" where
  "registerSchema env body =
     (case body of
        JObj kvs \<Rightarrow>
          and_then (required kvs ''name'' (\<lambda>v. and_then (joi_string v) (joi_length 2 (Some 50)))) (\<lambda>nm.
          and_then (required kvs ''email''
                     (\<lambda>v. and_then (joi_string v) (\<lambda>s. if joi_email env s then Inr s else Inl string_email))) (\<lambda>em.
          and_then (required kvs ''password'' (\<lambda>v. and_then (joi_string v) (joi_length 6 None))) (\<lambda>pw.
          no_unknown [''name'', ''email'', ''password''] kvs (nm, em, pw))))
      | _ \<Rightarrow> Inl (''value'', object_base))"

definition loginSchema :: "libs \<Rightarrow> js \<Rightarrow> joi_error + (string \<times> string)" where
  "loginSchema env body =
     (case body of
        JObj kvs \<Rightarrow>
          and_then (required kvs ''email''
                     (\<lambda>v. and_then (joi_string v) (\<lambda>s. if joi_email env s then Inr s else Inl string_email))) (\<lambda>em.
          and_then (required kvs ''password'' joi_string) (\<lambda>pw.
          no_unknown [''email'', ''password''] kvs (em, pw)))
      | _ \<Rightarrow> Inl (''value'', object_base))"

record task_fields =
  f_title :: string
  f_description :: "string option"
  f_status :: "string option"
  f_priority :: "string option"
  f_dueDate :: "date option"

definition taskSchema :: "libs \<Rightarrow> date \<Rightarrow> js \<Rightarrow> joi_error + task_fields" where
  "taskSchema env now body =
     (case body of
        JObj kvs \<Rightarrow>
          and_then (required kvs ''title'' (\<lambda>v. and_then (joi_string v) (joi_length 1 (Some 100)))) (\<lambda>ti.
          and_then (optional kvs ''description'' (\<lambda>v. and_then (joi_string v) (joi_length 0 (Some 500)))) (\<lambda>de.
          and_then (optional kvs ''status'' (joi_valid [''pending'', ''in-progress'', ''completed''])) (\<lambda>st.
          and_then (optional kvs ''priority'' (joi_valid [''low'', ''medium'', ''high''])) (\<lambda>pr.
          and_then (optional kvs ''dueDate'' (joi_date_greater_now env now)) (\<lambda>du.
          no_unknown [''title'', ''description'', ''status'', ''priority'', ''dueDate''] kvs
            \<lparr>f_title = ti, f_description = de, f_status = st, f_priority = pr, f_dueDate = du\<rparr>)))))
      | _ \<Rightarrow> Inl (''value'', object_base))"

definition bad_request :: "libs \<Rightarrow> joi_error \<Rightarrow> response" where
  "bad_request env e = Response 400 (error_body (joi_message env (fst e) (snd e)))"

section \<open>The authentication routes\<close>

text \<open>
  Each route takes what the request brings (header, body), what the environment draws
  for it (the clock read once, a fresh object id, a salt) and the database, and returns
  the response with the database after it. A query by email is cast through the
  schema: Mongoose runs the setters of the path on the filter, so \<^verbatim>\<open>lowercase: true\<close>
  lower-cases the email looked up as it lower-cases the email stored.
\<close>

definition new_user :: "objectId \<Rightarrow> string \<Rightarrow> string \<Rightarrow> string \<Rightarrow> date \<Rightarrow> user" where
  "new_user oid nm em pw now =
     \<lparr>user_id = oid, name = trim nm, email = toLowerCase em, password = pw,
      role = ''user'', user_createdAt = now, tokens = []\<rparr>"

definition findOne_email :: "string \<Rightarrow> user list \<Rightarrow> user option" where
  "findOne_email em us = find (\<lambda>u. email u = toLowerCase em) us"

definition post_register ::
  "libs \<Rightarrow> js \<Rightarrow> date \<Rightarrow> objectId \<Rightarrow> string \<Rightarrow> database \<Rightarrow> response \<times> database" where
  "post_register env body now oid salt db =
     (case registerSchema env body of
        Inl e \<Rightarrow> (bad_request env e, db)
      | Inr (nm, em, pw) \<Rightarrow>
          (case findOne_email em (users db) of
             Some existingUser \<Rightarrow>
               (Response 400 (error_body ''User already exists with this email''), db)
           | None \<Rightarrow>
               (case save_new_user env salt (new_user oid nm em pw now) (users db) of
                  Inl err \<Rightarrow> (NextError err, db)
                | Inr (u1, us1) \<Rightarrow>
                    (case generateAuthToken env True now u1 us1 of
                       Inl err \<Rightarrow> (NextError err, db\<lparr>users := us1\<rparr>)
                     | Inr (token, u2, us2) \<Rightarrow>
                         (Response 201
                            (JObj [(''message'', JStr ''User registered successfully''),
                                   (''user'', toJSON True u2),
                                   (''token'', JStr token)]),
                          db\<lparr>users := us2\<rparr>)))))"

definition post_login :: "libs \<Rightarrow> js \<Rightarrow> date \<Rightarrow> database \<Rightarrow> response \<times> database" where
  "post_login env body now db =
     (case loginSchema env body of
        Inl e \<Rightarrow> (bad_request env e, db)
      | Inr (em, pw) \<Rightarrow>
          (case findOne_email em (users db) of
             None \<Rightarrow> (Response 401 (error_body ''Invalid credentials''), db)
           | Some u \<Rightarrow>
               if \<not> comparePassword env u pw
               then (Response 401 (error_body ''Invalid credentials''), db)
               else (case generateAuthToken env True now u (users db) of
                       Inl err \<Rightarrow> (NextError err, db)
                     | Inr (token, u2, us2) \<Rightarrow>
                         (Response 200
                            (JObj [(''message'', JStr ''Login successful''),
                                   (''user'', toJSON True u2),
                                   (''token'', JStr token)]),
                          db\<lparr>users := us2\<rparr>))))"

definition get_me :: "libs \<Rightarrow> string option \<Rightarrow> date \<Rightarrow> database \<Rightarrow> response \<times> database" where
  "get_me env header now db =
     (case auth env header now db of
        Inl r \<Rightarrow> (r, db)
      | Inr (u, token) \<Rightarrow> (Response 200 (JObj [(''user'', toJSON False u)]), db))"

definition post_logout :: "libs \<Rightarrow> string option \<Rightarrow> date \<Rightarrow> database \<Rightarrow> response \<times> database" where
  "post_logout env header now db =
     (case auth env header now db of
        Inl r \<Rightarrow> (r, db)
      | Inr (u, token) \<Rightarrow>
          (case save_user env False (u\<lparr>tokens := filter (\<lambda>t. t \<noteq> token) (tokens u)\<rparr>) (users db) of
             Inl err \<Rightarrow> (NextError err, db)
           | Inr (u1, us1) \<Rightarrow>
               (Response 200 (JObj [(''message'', JStr ''Logged out successfully'')]),
                db\<lparr>users := us1\<rparr>)))"

section \<open>The task model\<close>

text \<open>
  The validators of the task schema. \<^verbatim>\<open>save\<close> checks the whole document; an update
  with \<^verbatim>\<open>runValidators\<close> checks the paths the update sets, before the query is
  sent. The clock is the one reading of the request.
\<close>

definition validate_title :: "string \<Rightarrow> string option" where
  "validate_title s =
     (if s = [] then Some ''Task title is required''
      else if length s > 100 then Some ''Title cannot exceed 100 characters''
      else None)"

definition validate_description :: "string option \<Rightarrow> string option" where
  "validate_description d =
     (case d of
        None \<Rightarrow> None
      | Some s \<Rightarrow> if length s > 500 then Some ''Description cannot exceed 500 characters'' else None)"

definition validate_enum :: "string \<Rightarrow> string list \<Rightarrow> string \<Rightarrow> string option" where
  "validate_enum path allowed s = (if s \<in> set allowed then None else Some path)"

definition validate_dueDate :: "date \<Rightarrow> date option \<Rightarrow> string option" where
  "validate_dueDate now d =
     (case d of
        None \<Rightarrow> None
      | Some v \<Rightarrow> if v > now then None else Some ''Due date must be in the future'')"

definition first_error :: "string option list \<Rightarrow> string option" where
  "first_error rs = (case filter (\<lambda>r. r \<noteq> None) rs of [] \<Rightarrow> None | r # _ \<Rightarrow> r)"

definition validate_task :: "date \<Rightarrow> task \<Rightarrow> string option" where
  "validate_task now t =
     first_error
       [validate_title (title t),
        validate_description (description t),
        validate_enum ''status'' [''pending'', ''in-progress'', ''completed''] (status t),
        validate_enum ''priority'' [''low'', ''medium'', ''high''] (priority t),
        validate_dueDate now (dueDate t)]"

text \<open>
  Casting applies the setters of the schema: the title and the description are
  trimmed, both when a document is built and when an update is cast.
\<close>

definition cast_fields :: "task_fields \<Rightarrow> task_fields" where
  "cast_fields v = v\<lparr>f_title := trim (f_title v), f_description := map_option trim (f_description v)\<rparr>"

definition validate_update :: "date \<Rightarrow> task_fields \<Rightarrow> string option" where
  "validate_update now v =
     first_error
       [validate_title (f_title v),
        validate_description (f_description v),
        (case f_status v of None \<Rightarrow> None
         | Some s \<Rightarrow> validate_enum ''status'' [''pending'', ''in-progress'', ''completed''] s),
        (case f_priority v of None \<Rightarrow> None
         | Some s \<Rightarrow> validate_enum ''priority'' [''low'', ''medium'', ''high''] s),
        validate_dueDate now (f_dueDate v)]"

text \<open>
  \<^verbatim>\<open>new Task({ ...value, owner })\<close>: the fields of the request, the defaults of the
  schema for the others.
\<close>

definition new_task :: "objectId \<Rightarrow> task_fields \<Rightarrow> objectId \<Rightarrow> date \<Rightarrow> task" where
  "new_task oid v uid now =
     (let c = cast_fields v in
      \<lparr>task_id = oid, title = f_title c, description = f_description c,
       status = (case f_status c of None \<Rightarrow> ''pending'' | Some s \<Rightarrow> s),
       priority = (case f_priority c of None \<Rightarrow> ''medium'' | Some p \<Rightarrow> p),
       dueDate = f_dueDate c, owner = uid, createdAt = now, updatedAt = now\<rparr>)"

text \<open>The pre-save hook of the task schema.\<close>

definition pre_save_task :: "date \<Rightarrow> task \<Rightarrow> task" where
  "pre_save_task now t = t\<lparr>updatedAt := now\<rparr>"

definition save_new_task :: "date \<Rightarrow> task \<Rightarrow> task list \<Rightarrow> app_error + (task \<times> task list)" where
  "save_new_task now t ts =
     (case validate_task now t of
        Some m \<Rightarrow> Inl (ValidationFailed m)
      | None \<Rightarrow>
          (let t' = pre_save_task now t in
           if list_ex (\<lambda>x. task_id x = task_id t') ts then Inl DuplicateKey
           else Inr (t', ts @ [t'])))"

text \<open>
  The update document of \<^verbatim>\<open>findOneAndUpdate\<close> is the validated value: it sets the
  fields the request supplied and no other. The pre-save hook is a hook of
  \<^verbatim>\<open>save\<close>; \<^verbatim>\<open>findOneAndUpdate\<close> does not run it.
\<close>

definition apply_update :: "task_fields \<Rightarrow> task \<Rightarrow> task" where
  "apply_update v t =
     t\<lparr>title := f_title v,
       description := (case f_description v of None \<Rightarrow> description t | Some d \<Rightarrow> Some d),
       status := (case f_status v of None \<Rightarrow> status t | Some s \<Rightarrow> s),
       priority := (case f_priority v of None \<Rightarrow> priority t | Some p \<Rightarrow> p),
       dueDate := (case f_dueDate v of None \<Rightarrow> dueDate t | Some d \<Rightarrow> Some d)\<rparr>"

fun update_first :: "('a \<Rightarrow> bool) \<Rightarrow> ('a \<Rightarrow> 'a) \<Rightarrow> 'a list \<Rightarrow> 'a list" where
  "update_first P f [] = []"
| "update_first P f (x # xs) = (if P x then f x # xs else x # update_first P f xs)"

fun remove_first :: "('a \<Rightarrow> bool) \<Rightarrow> 'a list \<Rightarrow> 'a list" where
  "remove_first P [] = []"
| "remove_first P (x # xs) = (if P x then xs else x # remove_first P xs)"

definition findOneAndUpdate ::
  "date \<Rightarrow> objectId \<Rightarrow> objectId \<Rightarrow> task_fields \<Rightarrow> task list \<Rightarrow> app_error + (task option \<times> task list)" where
  "findOneAndUpdate now tid uid v ts =
     (let c = cast_fields v; q = (\<lambda>t. task_id t = tid \<and> owner t = uid) in
      case validate_update now c of
        Some m \<Rightarrow> Inl (ValidationFailed m)
      | None \<Rightarrow>
          (case find q ts of
             None \<Rightarrow> Inr (None, ts)
           | Some t \<Rightarrow> Inr (Some (apply_update c t), update_first q (apply_update c) ts)))"

definition findOneAndDelete :: "objectId \<Rightarrow> objectId \<Rightarrow> task list \<Rightarrow> task option \<times> task list" where
  "findOneAndDelete tid uid ts =
     (let q = (\<lambda>t. task_id t = tid \<and> owner t = uid) in (find q ts, remove_first q ts))"

definition task_json :: "task \<Rightarrow> js" where
  "task_json t =
     JObj ([(''_id'', JId (task_id t)), (''title'', JStr (title t))]
       @ (case description t of None \<Rightarrow> [] | Some d \<Rightarrow> [(''description'', JStr d)])
       @ [(''status'', JStr (status t)), (''priority'', JStr (priority t))]
       @ (case dueDate t of None \<Rightarrow> [] | Some d \<Rightarrow> [(''dueDate'', JDate d)])
       @ [(''owner'', JId (owner t)), (''createdAt'', JDate (createdAt t)),
          (''updatedAt'', JDate (updatedAt t))])"

section \<open>The task routes\<close>

text \<open>
  The task router is mounted behind \<^verbatim>\<open>auth\<close>; the handlers below receive the user
  the middleware resolved. Ids in the path are object ids.
\<close>

definition get_task :: "user \<Rightarrow> objectId \<Rightarrow> database \<Rightarrow> response \<times> database" where
  "get_task u tid db =
     (case find (\<lambda>t. task_id t = tid \<and> owner t = user_id u) (tasks db) of
        None \<Rightarrow> (Response 404 (error_body ''Task not found''), db)
      | Some t \<Rightarrow> (Response 200 (JObj [(''task'', task_json t)]), db))"

definition post_task :: "libs \<Rightarrow> date \<Rightarrow> objectId \<Rightarrow> user \<Rightarrow> js \<Rightarrow> database \<Rightarrow> response \<times> database" where
  "post_task env now oid u body db =
     (case taskSchema env now body of
        Inl e \<Rightarrow> (bad_request env e, db)
      | Inr v \<Rightarrow>
          (case save_new_task now (new_task oid v (user_id u) now) (tasks db) of
             Inl err \<Rightarrow> (NextError err, db)
           | Inr (t, ts) \<Rightarrow>
               (Response 201 (JObj [(''message'', JStr ''Task created successfully''),
                                    (''task'', task_json t)]),
                db\<lparr>tasks := ts\<rparr>)))"

definition put_task :: "libs \<Rightarrow> date \<Rightarrow> user \<Rightarrow> objectId \<Rightarrow> js \<Rightarrow> database \<Rightarrow> response \<times> database" where
  "put_task env now u tid body db =
     (case taskSchema env now body of
        Inl e \<Rightarrow> (bad_request env e, db)
      | Inr v \<Rightarrow>
          (case findOneAndUpdate now tid (user_id u) v (tasks db) of
             Inl err \<Rightarrow> (NextError err, db)
           | Inr (None, ts) \<Rightarrow> (Response 404 (error_body ''Task not found''), db)
           | Inr (Some t, ts) \<Rightarrow>
               (Response 200 (JObj [(''message'', JStr ''Task updated successfully''),
                                    (''task'', task_json t)]),
                db\<lparr>tasks := ts\<rparr>)))"

definition delete_task :: "user \<Rightarrow> objectId \<Rightarrow> database \<Rightarrow> response \<times> database" where
  "delete_task u tid db =
     (case findOneAndDelete tid (user_id u) (tasks db) of
        (None, ts) \<Rightarrow> (Response 404 (error_body ''Task not found''), db)
      | (Some t, ts) \<Rightarrow>
          (Response 200 (JObj [(''message'', JStr ''Task deleted successfully'')]),
           db\<lparr>tasks := ts\<rparr>))"

text \<open>A route of the task router as the server mounts it: the middleware, then the handler.\<close>

definition guarded ::
  "libs \<Rightarrow> string option \<Rightarrow> date \<Rightarrow> database \<Rightarrow> (user \<Rightarrow> response \<times> database) \<Rightarrow> response \<times> database" where
  "guarded env header now db handler =
     (case auth env header now db of
        Inl r \<Rightarrow> (r, db)
      | Inr (u, token) \<Rightarrow> handler u)"

section \<open>Listing tasks\<close>

text \<open>
  JavaScript numbers are doubles. The numbers of the list route are whole: a finite one
  is kept as its integer value (both zeros as \<open>0\<close>), next to the infinities and
  \<^verbatim>\<open>NaN\<close>. \<open>to_double\<close> rounds an integer to the nearest double, ties to the even
  mantissa of 53 bits, and overflows to an infinity.
\<close>

datatype jsnum = Num int | PosInf | NegInf | NaN

fun bitlen :: "int \<Rightarrow> nat" where
  "bitlen n = (if n \<le> 0 then 0 else Suc (bitlen (n div 2)))"

declare bitlen.simps [simp del]

definition round_div :: "int \<Rightarrow> int \<Rightarrow> int" where
  "round_div n d =
     (let q = n div d; r = n mod d
      in if 2 * r > d \<or> (2 * r = d \<and> odd q) then q + 1 else q)"

definition to_double :: "int \<Rightarrow> jsnum" where
  "to_double n =
     (let m = \<bar>n\<bar> in
      if m < 2 ^ 53 then Num n
      else (let e = bitlen m - 53;
                v = round_div m (2 ^ e) * 2 ^ e
            in if v \<ge> 2 ^ 1024 then (if n < 0 then NegInf else PosInf)
               else Num (if n < 0 then - v else v)))"

definition finite_part :: "jsnum \<Rightarrow> int option" where
  "finite_part x = (case x of Num n \<Rightarrow> Some n | _ \<Rightarrow> None)"

text \<open>
  \<^verbatim>\<open>parseInt\<close> skips leading white space, reads a sign, switches to radix 16 after
  \<^verbatim>\<open>0x\<close>, and reads the longest run of digits; with no digit the result is \<^verbatim>\<open>NaN\<close>.
  The value of the digits is rounded to a double (past twenty digits the language lets
  an implementation round a truncated value instead).
\<close>

definition digit_value :: "int \<Rightarrow> char \<Rightarrow> int option" where
  "digit_value radix c =
     (let n = (of_char c :: int);
          d = (if 48 \<le> n \<and> n \<le> 57 then Some (n - 48)
               else if 97 \<le> n \<and> n \<le> 122 then Some (n - 87)
               else if 65 \<le> n \<and> n \<le> 90 then Some (n - 55)
               else None)
      in case d of None \<Rightarrow> None | Some v \<Rightarrow> if v < radix then Some v else None)"

fun digits :: "int \<Rightarrow> string \<Rightarrow> int list" where
  "digits radix [] = []"
| "digits radix (c # cs) =
     (case digit_value radix c of None \<Rightarrow> [] | Some d \<Rightarrow> d # digits radix cs)"

definition parseInt :: "string \<Rightarrow> jsnum" where
  "parseInt s =
     (let s1 = dropWhile isWhitespace s;
          neg = startsWith ''-'' s1;
          s2 = (if startsWith ''-'' s1 \<or> startsWith ''+'' s1 then drop 1 s1 else s1);
          hex = (startsWith ''0x'' s2 \<or> startsWith ''0X'' s2);
          radix = (if hex then 16 else 10);
          ds = digits radix (if hex then drop 2 s2 else s2);
          n = foldl (\<lambda>acc d. acc * radix + d) 0 ds
      in if ds = [] then NaN else to_double (if neg then - n else n))"

text \<open>The arithmetic of the route: \<^verbatim>\<open>x - 1\<close> and \<^verbatim>\<open>x * y\<close> on such numbers.\<close>

definition js_pred :: "jsnum \<Rightarrow> jsnum" where
  "js_pred x = (case x of Num a \<Rightarrow> to_double (a - 1) | _ \<Rightarrow> x)"

definition js_times_inf :: "bool \<Rightarrow> jsnum \<Rightarrow> jsnum" where
  "js_times_inf positive y =
     (case y of
        NaN \<Rightarrow> NaN
      | Num b \<Rightarrow> if b = 0 then NaN else if (0 < b) = positive then PosInf else NegInf
      | PosInf \<Rightarrow> if positive then PosInf else NegInf
      | NegInf \<Rightarrow> if positive then NegInf else PosInf)"

definition js_mul :: "jsnum \<Rightarrow> jsnum \<Rightarrow> jsnum" where
  "js_mul x y =
     (case x of
        NaN \<Rightarrow> NaN
      | PosInf \<Rightarrow> js_times_inf True y
      | NegInf \<Rightarrow> js_times_inf False y
      | Num a \<Rightarrow>
          (case y of
             Num b \<Rightarrow> to_double (a * b)
           | NaN \<Rightarrow> NaN
           | PosInf \<Rightarrow> js_times_inf True x
           | NegInf \<Rightarrow> js_times_inf False x))"

text \<open>
  \<^verbatim>\<open>Math.ceil(total / limit)\<close>. The quotient of two whole doubles is rounded to a
  double: a mantissa \<open>m\<close> and an exponent \<open>k\<close> with value \<open>m * 2 ^ k\<close>, the mantissa of 53
  bits (fewer for a subnormal). The result is the ceiling of that value; \<open>None\<close>
  stands for the results that are not finite, which JSON writes as \<^verbatim>\<open>null\<close>.
\<close>

definition fl_div :: "int \<Rightarrow> int \<Rightarrow> int \<times> int" where
  "fl_div a b =
     (let k1 = max (int (bitlen a) - int (bitlen b) - 53) (- 1074);
          k = (if (a * 2 ^ nat (- k1)) div (b * 2 ^ nat k1) \<ge> 2 ^ 53 then k1 + 1 else k1)
      in (round_div (a * 2 ^ nat (- k)) (b * 2 ^ nat k), k))"

definition scaled_ceiling :: "int \<times> int \<Rightarrow> int" where
  "scaled_ceiling v =
     (case v of (m, k) \<Rightarrow>
        if 0 \<le> k then m * 2 ^ nat k else - ((- m) div 2 ^ nat (- k)))"

definition scaled_floor :: "int \<times> int \<Rightarrow> int" where
  "scaled_floor v =
     (case v of (m, k) \<Rightarrow>
        if 0 \<le> k then m * 2 ^ nat k else m div 2 ^ nat (- k))"

definition js_ceil_div :: "int \<Rightarrow> jsnum \<Rightarrow> int option" where
  "js_ceil_div n lm =
     (case lm of
        NaN \<Rightarrow> None
      | PosInf \<Rightarrow> Some 0
      | NegInf \<Rightarrow> Some 0
      | Num l \<Rightarrow>
          if l = 0 then None
          else (case to_double n of
                  Num t \<Rightarrow>
                    Some (if t = 0 then 0
                          else if 0 < l then scaled_ceiling (fl_div t l)
                          else - scaled_floor (fl_div t (- l)))
                | _ \<Rightarrow> None))"

record task_query =
  q_status :: "string option"
  q_priority :: "string option"
  q_sortBy :: "string option"
  q_sortOrder :: "string option"
  q_page :: "string option"
  q_limit :: "string option"

text \<open>
  The parameters of the query string are strings (a repeated or bracketed parameter,
  which the parser turns into an array or an object, is outside the model). The filter
  of the query: the owner always, the status and the priority when the parameter is a
  non-empty string.
\<close>

definition matches :: "user \<Rightarrow> task_query \<Rightarrow> task \<Rightarrow> bool" where
  "matches u q t =
     (owner t = user_id u
      \<and> (case q_status q of None \<Rightarrow> True | Some s \<Rightarrow> s = [] \<or> status t = s)
      \<and> (case q_priority q of None \<Rightarrow> True | Some p \<Rightarrow> p = [] \<or> priority t = p))"

text \<open>
  The value a document has at the sort field (none at a path the document does not
  have), and the order of the database on such values: a missing value first, strings
  by their bytes. Documents with equal values keep the order of the collection.
\<close>

datatype bson = BNull | BStr string | BId objectId | BDate date

definition field_value :: "string \<Rightarrow> task \<Rightarrow> bson" where
  "field_value f t =
     (if f = ''_id'' then BId (task_id t)
      else if f = ''title'' then BStr (title t)
      else if f = ''description'' then (case description t of None \<Rightarrow> BNull | Some d \<Rightarrow> BStr d)
      else if f = ''status'' then BStr (status t)
      else if f = ''priority'' then BStr (priority t)
      else if f = ''dueDate'' then (case dueDate t of None \<Rightarrow> BNull | Some d \<Rightarrow> BDate d)
      else if f = ''owner'' then BId (owner t)
      else if f = ''createdAt'' then BDate (createdAt t)
      else if f = ''updatedAt'' then BDate (updatedAt t)
      else BNull)"

fun str_le :: "string \<Rightarrow> string \<Rightarrow> bool" where
  "str_le [] s = True"
| "str_le (c # cs) [] = False"
| "str_le (c # cs) (d # ds) =
     ((of_char c :: nat) < of_char d \<or> (c = d \<and> str_le cs ds))"

fun bson_le :: "bson \<Rightarrow> bson \<Rightarrow> bool" where
  "bson_le BNull b = True"
| "bson_le (BStr s) b = (case b of BNull \<Rightarrow> False | BStr s' \<Rightarrow> str_le s s' | _ \<Rightarrow> True)"
| "bson_le (BId i) b = (case b of BId j \<Rightarrow> i \<le> j | BDate d \<Rightarrow> True | _ \<Rightarrow> False)"
| "bson_le (BDate d) b = (case b of BDate e \<Rightarrow> d \<le> e | _ \<Rightarrow> False)"

fun insort_by :: "('a \<Rightarrow> 'a \<Rightarrow> bool) \<Rightarrow> 'a \<Rightarrow> 'a list \<Rightarrow> 'a list" where
  "insort_by le x [] = [x]"
| "insort_by le x (y # ys) = (if le x y then x # y # ys else y # insort_by le x ys)"

definition sort_by :: "('a \<Rightarrow> 'a \<Rightarrow> bool) \<Rightarrow> 'a list \<Rightarrow> 'a list" where
  "sort_by le xs = foldr (insort_by le) xs []"

text \<open>
  The database refuses a sort key that is not a field path: the empty string, a path
  with an empty component, a component that begins with \<^verbatim>\<open>$\<close>, a null character.
  The key \<^verbatim>\<open>$natural\<close> asks for the order of the collection, or its reverse.
\<close>

definition sort_field_ok :: "string \<Rightarrow> bool" where
  "sort_field_ok f =
     (f \<noteq> [] \<and> \<not> startsWith ''.'' f \<and> \<not> startsWith ''$'' f \<and> last f \<noteq> CHR ''.''
      \<and> \<not> str_includes ''..'' f \<and> \<not> str_includes ''.$'' f \<and> CHR 0x00 \<notin> set f)"

definition sort_tasks :: "string \<Rightarrow> int \<Rightarrow> task list \<Rightarrow> app_error + task list" where
  "sort_tasks f dir ts =
     (if f = ''$natural'' then Inr (if dir = - 1 then rev ts else ts)
      else if \<not> sort_field_ok f then Inl QueryFailed
      else if dir = - 1 then Inr (sort_by (\<lambda>a b. bson_le (field_value f b) (field_value f a)) ts)
      else Inr (sort_by (\<lambda>a b. bson_le (field_value f a) (field_value f b)) ts))"

text \<open>
  The cursor: skip, then limit. The driver sends a negative limit as its absolute
  value. The server reads both numbers as 64-bit integers (\<^verbatim>\<open>NaN\<close> as 0, a number out
  of range as the nearest bound), refuses a negative skip, and takes a limit of zero
  as no limit.
\<close>

definition safe_long :: "jsnum \<Rightarrow> int" where
  "safe_long x =
     (case x of
        NaN \<Rightarrow> 0
      | PosInf \<Rightarrow> 2 ^ 63 - 1
      | NegInf \<Rightarrow> - (2 ^ 63)
      | Num n \<Rightarrow> max (- (2 ^ 63)) (min (2 ^ 63 - 1) n))"

definition driver_limit :: "jsnum \<Rightarrow> jsnum" where
  "driver_limit x =
     (case x of
        Num l \<Rightarrow> if l < 0 then Num (- l) else Num l
      | NegInf \<Rightarrow> PosInf
      | _ \<Rightarrow> x)"

fun skip_docs :: "int \<Rightarrow> 'a list \<Rightarrow> 'a list" where
  "skip_docs n [] = []"
| "skip_docs n (x # xs) = (if n \<le> 0 then x # xs else skip_docs (n - 1) xs)"

fun limit_docs :: "int \<Rightarrow> 'a list \<Rightarrow> 'a list" where
  "limit_docs n [] = []"
| "limit_docs n (x # xs) = (if n \<le> 0 then [] else x # limit_docs (n - 1) xs)"

definition cursor :: "'a list \<Rightarrow> jsnum \<Rightarrow> jsnum \<Rightarrow> app_error + 'a list" where
  "cursor xs skip lm =
     (let s = safe_long skip; l = safe_long (driver_limit lm)
      in if s < 0 then Inl QueryFailed
         else Inr (if l = 0 then skip_docs s xs else limit_docs l (skip_docs s xs)))"

definition js_number :: "int option \<Rightarrow> js" where
  "js_number n = (case n of None \<Rightarrow> JNull | Some k \<Rightarrow> JNum k)"

text \<open>
  What the response of the list carries: the items, the page and the limit as read
  (\<open>None\<close> when not finite), the count of the matching tasks and the pages.
\<close>

record task_page =
  p_items :: "task list"
  p_page :: "int option"
  p_limit :: "int option"
  p_total :: int
  p_pages :: "int option"

definition list_tasks :: "user \<Rightarrow> task_query \<Rightarrow> task list \<Rightarrow> app_error + task_page" where
  "list_tasks u q ts =
     (let sortBy = (case q_sortBy q of None \<Rightarrow> ''createdAt'' | Some f \<Rightarrow> f);
          sortOrder = (case q_sortOrder q of None \<Rightarrow> ''desc'' | Some d \<Rightarrow> d);
          pg = (case q_page q of None \<Rightarrow> Num 1 | Some s \<Rightarrow> parseInt s);
          lm = (case q_limit q of None \<Rightarrow> Num 10 | Some s \<Rightarrow> parseInt s);
          dir = (if sortOrder = ''desc'' then - 1 else 1);
          skip = js_mul (js_pred pg) lm;
          found = filter (matches u q) ts
      in case sort_tasks sortBy dir found of
           Inl err \<Rightarrow> Inl err
         | Inr ordered \<Rightarrow>
             (case cursor ordered skip lm of
                Inl err \<Rightarrow> Inl err
              | Inr xs \<Rightarrow>
                  Inr \<lparr>p_items = xs, p_page = finite_part pg, p_limit = finite_part lm,
                       p_total = int (length found),
                       p_pages = js_ceil_div (int (length found)) lm\<rparr>))"

definition get_tasks :: "user \<Rightarrow> task_query \<Rightarrow> database \<Rightarrow> response \<times> database" where
  "get_tasks u q db =
     (case list_tasks u q (tasks db) of
        Inl err \<Rightarrow> (NextError err, db)
      | Inr r \<Rightarrow>
          (Response 200
             (JObj [(''tasks'', JArr (map task_json (p_items r))),
                    (''pagination'',
                       JObj [(''page'', js_number (p_page r)), (''limit'', js_number (p_limit r)),
                             (''total'', JNum (p_total r)), (''pages'', js_number (p_pages r))])]),
           db))"

section \<open>Reading values\<close>

text \<open>
  The value of an object at a key (none for a value that is not an object), the keys
  of an object, and the user a response carries.
\<close>

definition js_field :: "js \<Rightarrow> string \<Rightarrow> js option" where
  "js_field v k = (case v of JObj kvs \<Rightarrow> map_of kvs k | _ \<Rightarrow> None)"

definition js_keys :: "js \<Rightarrow> string list" where
  "js_keys v = (case v of JObj kvs \<Rightarrow> map fst kvs | _ \<Rightarrow> [])"

definition response_user :: "response \<Rightarrow> js option" where
  "response_user r = (case r of Response s b \<Rightarrow> js_field b ''user'' | NextError e \<Rightarrow> None)"

section \<open>The server\<close>

text \<open>
  The routes as the server mounts them: the authentication routes under
  \<^verbatim>\<open>/api/auth\<close>, the task routes under \<^verbatim>\<open>/api/tasks\<close> behind the middleware. A request
  comes with what the environment draws while it is handled. Requests are handled one
  after the other; \<open>run\<close> handles a list of them.
\<close>

datatype request =
    Register js date objectId string
  | Login js date
  | Me "string option" date
  | Logout "string option" date
  | ListTasks "string option" date task_query
  | GetTask "string option" date objectId
  | CreateTask "string option" date objectId js
  | UpdateTask "string option" date objectId js
  | DeleteTask "string option" date objectId

fun handle :: "libs \<Rightarrow> request \<Rightarrow> database \<Rightarrow> response \<times> database" where
  "handle env (Register body now oid salt) db = post_register env body now oid salt db"
| "handle env (Login body now) db = post_login env body now db"
| "handle env (Me header now) db = get_me env header now db"
| "handle env (Logout header now) db = post_logout env header now db"
| "handle env (ListTasks header now q) db = guarded env header now db (\<lambda>u. get_tasks u q db)"
| "handle env (GetTask header now tid) db = guarded env header now db (\<lambda>u. get_task u tid db)"
| "handle env (CreateTask header now oid body) db =
     guarded env header now db (\<lambda>u. post_task env now oid u body db)"
| "handle env (UpdateTask header now tid body) db =
     guarded env header now db (\<lambda>u. put_task env now u tid body db)"
| "handle env (DeleteTask header now tid) db = guarded env header now db (\<lambda>u. delete_task u tid db)"

fun run :: "libs \<Rightarrow> request list \<Rightarrow> database \<Rightarrow> database" where
  "run env [] db = db"
| "run env (r # rs) db = run env rs (snd (handle env r db))"

text \<open>
  The token a response carries (register and login send one), and the runs in which no
  response carries a given token.
\<close>

definition response_token :: "response \<Rightarrow> js option" where
  "response_token r = (case r of Response s b \<Rightarrow> js_field b ''token'' | NextError e \<Rightarrow> None)"

fun never_reissued :: "libs \<Rightarrow> string \<Rightarrow> request list \<Rightarrow> database \<Rightarrow> bool" where
  "never_reissued env tok [] db = True"
| "never_reissued env tok (r # rs) db =
     (response_token (fst (handle env r db)) \<noteq> Some (JStr tok)
      \<and> never_reissued env tok rs (snd (handle env r db)))"

text \<open>
  The database keeps ids unique within a collection, and the user collection has a
  unique index on the email.
\<close>

definition unique_keys :: "database \<Rightarrow> bool" where
  "unique_keys db =
     (distinct (map user_id (users db)) \<and> distinct (map email (users db))
      \<and> distinct (map task_id (tasks db)))"

text \<open>
  What a successful registration adds: one user at the end of the collection, with an
  id and an email no stored user had.
\<close>

definition grown :: "database \<Rightarrow> database \<Rightarrow> objectId \<Rightarrow> string \<Rightarrow> bool" where
  "grown db db' oid em \<longleftrightarrow>
     map email (users db') = map email (users db) @ [em]
     \<and> map user_id (users db') = map user_id (users db) @ [oid]
     \<and> oid \<notin> set (map user_id (users db)) \<and> em \<notin> set (map email (users db))"

section \<open>A sample instance\<close>

text \<open>
  A small instance of the library functions and of the database, on which the model
  is run in the examples below: tokens that only name the user and the second of issue
  and decode for the two stored users, a hash that only tags the password, and the
  regular expression of the schema as email check.
\<close>

definition sample_libs :: libs where
  "sample_libs =
     \<lparr>jwt_encode = (\<lambda>c. ''jwt'' @ [char_of (48 + c_id c)] @ replicate (nat (c_iat c)) CHR ''+''),
      jwt_decode = (\<lambda>s. if s = ''jwt1'' then Some (stamp 1 ''ann@ex.io'' ''user'' 0)
                         else if s = ''jwt2'' then Some (stamp 2 ''bob@ex.io'' ''user'' 0)
                         else None),
      bcrypt_hash = (\<lambda>p salt. ''hash:'' @ p),
      bcrypt_compare = (\<lambda>p h. h = ''hash:'' @ p),
      joi_email = rx_test email_regex,
      joi_message = (\<lambda>k c. k),
      date_parse = (\<lambda>s. None)\<rparr>"

definition ann :: user where
  "ann = \<lparr>user_id = 1, name = ''Ann'', email = ''ann@ex.io'', password = ''hash:secret1'',
          role = ''user'', user_createdAt = 0, tokens = []\<rparr>"

definition bob :: user where
  "bob = \<lparr>user_id = 2, name = ''Bob'', email = ''bob@ex.io'', password = ''hash:secret2'',
          role = ''user'', user_createdAt = 0, tokens = [''jwt2'']\<rparr>"

definition cy :: user where
  "cy = \<lparr>user_id = 3, name = ''Cy'', email = ''cy@ex.io'', password = ''hash:secret3'',
         role = ''user'', user_createdAt = 5, tokens = [''jwt3'']\<rparr>"

definition ann_task :: task where
  "ann_task = \<lparr>task_id = 7, title = ''Write report'', description = None, status = ''pending'',
               priority = ''medium'', dueDate = None, owner = 1, createdAt = 1000,
               updatedAt = 1000\<rparr>"

definition numbered_task :: "nat \<Rightarrow> task" where
  "numbered_task i =
     ann_task\<lparr>task_id := i, status := (if i mod 3 = 0 then ''completed'' else ''pending''),
              createdAt := 1000 * int i, updatedAt := 1000 * int i\<rparr>"

definition bob_task :: task where
  "bob_task = \<lparr>task_id = 40, title = ''Call Ann'', description = None, status = ''pending'',
               priority = ''high'', dueDate = None, owner = 2, createdAt = 500, updatedAt = 500\<rparr>"

definition busy_db :: database where
  "busy_db = \<lparr>users = [ann, bob], tasks = bob_task # map numbered_task [1..<16]\<rparr>"

definition page_two :: task_query where
  "page_two = \<lparr>q_status = None, q_priority = None, q_sortBy = None, q_sortOrder = None,
               q_page = Some ''2'', q_limit = Some ''10''\<rparr>"

definition completed_only :: task_query where
  "completed_only = \<lparr>q_status = Some ''completed'', q_priority = None, q_sortBy = None,
                     q_sortOrder = None, q_page = None, q_limit = None\<rparr>"

definition sample_db :: database where
  "sample_db = \<lparr>users = [ann, bob], tasks = [ann_task]\<rparr>"

section \<open>Strings and lists\<close>

lemma startsWith_append: "startsWith p (p @ t)"
  by (induction p) auto

lemma replace_first_prefix: "replace_first p r (p @ t) = r @ t"
proof (cases "p @ t")
  case Nil
  then show ?thesis by simp
next
  case (Cons c cs)
  have "startsWith p (c # cs)" using startsWith_append [of p t] Cons by simp
  moreover have "drop (length p) (c # cs) = t" using Cons [symmetric] by simp
  ultimately show ?thesis using Cons by simp
qed

lemma replace_first_nonempty: "\<not> startsWith p s \<Longrightarrow> s \<noteq> [] \<Longrightarrow> replace_first p [] s \<noteq> []"
  by (cases s) auto

lemma replace_first_absent: "\<not> str_includes p s \<Longrightarrow> replace_first p r s = s"
  by (induction s) auto

lemma find_Some_D: "find P xs = Some x \<Longrightarrow> P x \<and> x \<in> set xs"
  by (induction xs) (auto split: if_splits)

lemma find_ex: "x \<in> set xs \<Longrightarrow> P x \<Longrightarrow> \<exists>y. find P xs = Some y \<and> P y"
  by (induction xs) auto

section \<open>The middleware\<close>

lemma auth_token:
  "replace_first ''Bearer '' [] h = tok \<Longrightarrow> tok \<noteq> [] \<Longrightarrow> auth env (Some h) now db =
     (case jwt_verify env tok now of
        None \<Rightarrow> Inl (Response 401 (error_body ''Token is not valid''))
      | Some decoded \<Rightarrow>
          (case find (\<lambda>u. user_id u = c_id decoded \<and> tok \<in> set (tokens u)) (users db) of
             None \<Rightarrow> Inl (Response 401 (error_body ''Token is not valid''))
           | Some u \<Rightarrow> Inr (u, tok)))"
  unfolding auth_def by simp

lemma auth_Bearer:
  "tok \<noteq> [] \<Longrightarrow> auth env (Some (''Bearer '' @ tok)) now db =
     (case jwt_verify env tok now of
        None \<Rightarrow> Inl (Response 401 (error_body ''Token is not valid''))
      | Some decoded \<Rightarrow>
          (case find (\<lambda>u. user_id u = c_id decoded \<and> tok \<in> set (tokens u)) (users db) of
             None \<Rightarrow> Inl (Response 401 (error_body ''Token is not valid''))
           | Some u \<Rightarrow> Inr (u, tok)))"
  using replace_first_prefix [of "''Bearer ''" "[]" tok] by (intro auth_token) simp_all

lemma auth_Inr_D:
  assumes "auth env header now db = Inr (u, tok)"
  shows "\<exists>h d. header = Some h \<and> replace_first ''Bearer '' [] h = tok \<and> tok \<noteq> []
           \<and> jwt_decode env tok = Some d \<and> user_id u = c_id d
           \<and> tok \<in> set (tokens u) \<and> u \<in> set (users db)"
  using assms unfolding auth_def jwt_verify_def
  by (auto split: option.splits if_splits dest: find_Some_D)


section \<open>Issue, check, logout\<close>

lemma auth_Inl_D: "auth env header now db = Inl r \<Longrightarrow> \<exists>b. r = Response 401 b"
  unfolding auth_def by (auto split: option.splits if_splits)

lemma generateAuthToken_D:
  assumes "generateAuthToken env sel now u us = Inr (tok, u1, us1)"
  shows "tok = jwt_sign env (user_id u) (email u) (role u) now \<and> tok \<noteq> []
       \<and> u1 = u\<lparr>tokens := tokens u @ [tok]\<rparr>
       \<and> (\<exists>v \<in> set us. user_id v = user_id u)
       \<and> us1 = map (\<lambda>v. if user_id v = user_id u then u1 else v) us"
  using assms
  unfolding generateAuthToken_def save_user_def validate_user_def pre_save_def Let_def
  by (auto split: option.splits if_splits sum.splits simp: list_ex_iff)

section \<open>Validation\<close>

lemma and_then_Inr_iff: "and_then r f = Inr x \<longleftrightarrow> (\<exists>v. r = Inr v \<and> f v = Inr x)"
  unfolding and_then_def by (cases r) auto

lemma required_Inr_iff:
  "required kvs k check = Inr x \<longleftrightarrow> (\<exists>v. map_of kvs k = Some v \<and> check v = Inr x)"
  unfolding required_def by (auto split: option.splits sum.splits)

lemma optional_Inr_iff:
  "optional kvs k check = Inr x \<longleftrightarrow>
     (case map_of kvs k of None \<Rightarrow> x = None | Some v \<Rightarrow> \<exists>y. check v = Inr y \<and> x = Some y)"
  unfolding optional_def by (auto split: option.splits sum.splits)

lemma no_unknown_Inr: "no_unknown ds kvs x = Inr y \<Longrightarrow> y = x"
  unfolding no_unknown_def by (auto split: option.splits)

lemma joi_string_Inr_iff: "joi_string v = Inr s \<longleftrightarrow> v = JStr s \<and> s \<noteq> []"
  unfolding joi_string_def by (cases v) auto

lemma taskSchema_title:
  assumes "taskSchema env now body = Inr f"
  shows "\<exists>s. js_field body ''title'' = Some (JStr s)"
  using assms unfolding taskSchema_def js_field_def
  by (cases body) (auto simp: and_then_Inr_iff required_Inr_iff joi_string_Inr_iff)

lemma taskSchema_dueDate:
  assumes "taskSchema env now body = Inr f" and "js_field body ''dueDate'' = Some v"
  shows "\<exists>d. joi_date env v = Some d \<and> now < d"
  using assms unfolding taskSchema_def js_field_def
  by (cases body)
     (auto simp: and_then_Inr_iff optional_Inr_iff joi_date_greater_now_def
           split: option.splits if_splits)

lemma registerSchema_email:
  assumes "registerSchema env body = Inr (nm, em, pw)"
  shows "js_field body ''email'' = Some (JStr em)"
  using assms unfolding registerSchema_def js_field_def
  by (cases body)
     (auto simp: and_then_Inr_iff required_Inr_iff joi_string_Inr_iff
           dest!: no_unknown_Inr split: if_splits)

lemma bad_request_400: "bad_request env e = Response 400 (error_body (joi_message env (fst e) (snd e)))"
  by (simp add: bad_request_def)

text \<open>
  Claim C10. An update whose body has no \<^verbatim>\<open>title\<close> is answered 400 and leaves the
  database as it was, whatever else the body supplies and whatever the id in the path:
  the schema is checked before the task is looked up. For an object body the error is
  the one of the missing title.
\<close>

theorem put_task_requires_title:
  assumes "js_field body ''title'' = None"
  shows "(\<exists>m. put_task env now u tid body db = (Response 400 (error_body m), db))
       \<and> (\<forall>kvs. body = JObj kvs \<longrightarrow>
            put_task env now u tid body db
              = (Response 400 (error_body (joi_message env ''title'' any_required)), db))"
proof -
  have obj: "taskSchema env now body = Inl (''title'', any_required)" if "body = JObj kvs" for kvs
    using assms that unfolding taskSchema_def js_field_def and_then_def required_def by simp
  have "\<exists>e. taskSchema env now body = Inl e"
  proof (cases "taskSchema env now body")
    case (Inr f)
    from taskSchema_title [OF this] assms show ?thesis by simp
  qed simp
  then obtain e where e: "taskSchema env now body = Inl e" ..
  have 1: "put_task env now u tid body db = (Response 400 (error_body (joi_message env (fst e) (snd e))), db)"
    unfolding put_task_def e by (simp add: bad_request_400)
  have 2: "put_task env now u tid body db
              = (Response 400 (error_body (joi_message env ''title'' any_required)), db)"
    if "body = JObj kvs" for kvs
    unfolding put_task_def obj [OF that] by (simp add: bad_request_400)
  show ?thesis using 1 2 by blast
qed

theorem put_task_requires_title_witness:
  "js_field (JObj [(''status'', JStr ''completed'')]) ''title'' = None
   \<and> put_task sample_libs 5000 ann 7 (JObj [(''status'', JStr ''completed'')]) sample_db
       = (Response 400 (error_body ''title''), sample_db)
   \<and> put_task sample_libs 5000 ann 99 (JObj [(''status'', JStr ''completed'')]) sample_db
       = (Response 400 (error_body ''title''), sample_db)"
proof -
  have h: "js_field (JObj [(''status'', JStr ''completed'')]) ''title'' = None" by code_simp
  have m: "joi_message sample_libs ''title'' any_required = ''title''" by code_simp
  from put_task_requires_title [OF h, of sample_libs 5000 ann 7 sample_db]
       put_task_requires_title [OF h, of sample_libs 5000 ann 99 sample_db]
  show ?thesis using h unfolding m by simp
qed

text \<open>
  Claim C5. When the body of a create or an update request carries a \<^verbatim>\<open>dueDate\<close> that
  converts to a time not after the clock of the request, both routes answer 400 and
  leave the database as it was: no task is created and none is changed.
\<close>

theorem past_dueDate_rejected:
  assumes "js_field body ''dueDate'' = Some v" and "joi_date env v = Some d" and "d \<le> now"
  shows "(\<exists>m. post_task env now oid u body db = (Response 400 (error_body m), db))
       \<and> (\<exists>m. put_task env now u tid body db = (Response 400 (error_body m), db))"
proof -
  have "\<exists>e. taskSchema env now body = Inl e"
  proof (cases "taskSchema env now body")
    case (Inr f)
    from taskSchema_dueDate [OF this assms(1)] assms(2,3) show ?thesis by simp
  qed simp
  then obtain e where e: "taskSchema env now body = Inl e" ..
  have "post_task env now oid u body db = (Response 400 (error_body (joi_message env (fst e) (snd e))), db)"
    unfolding post_task_def e by (simp add: bad_request_400)
  moreover have "put_task env now u tid body db = (Response 400 (error_body (joi_message env (fst e) (snd e))), db)"
    unfolding put_task_def e by (simp add: bad_request_400)
  ultimately show ?thesis by blast
qed

theorem past_dueDate_rejected_witness:
  "js_field (JObj [(''title'', JStr ''Pay rent''), (''dueDate'', JNum 5000)]) ''dueDate'' = Some (JNum 5000)
   \<and> joi_date sample_libs (JNum 5000) = Some 5000 \<and> (5000 :: int) \<le> 5000
   \<and> post_task sample_libs 5000 8 ann (JObj [(''title'', JStr ''Pay rent''), (''dueDate'', JNum 5000)]) sample_db
       = (Response 400 (error_body ''dueDate''), sample_db)
   \<and> put_task sample_libs 5000 ann 7 (JObj [(''title'', JStr ''Pay rent''), (''dueDate'', JNum 5000)]) sample_db
       = (Response 400 (error_body ''dueDate''), sample_db)
   \<and> fst (post_task sample_libs 4999 8 ann (JObj [(''title'', JStr ''Pay rent''), (''dueDate'', JNum 5000)]) sample_db)
       = Response 201 (JObj [(''message'', JStr ''Task created successfully''),
           (''task'', task_json \<lparr>task_id = 8, title = ''Pay rent'', description = None,
              status = ''pending'', priority = ''medium'', dueDate = Some 5000, owner = 1,
              createdAt = 4999, updatedAt = 4999\<rparr>)])"
proof -
  let ?b = "JObj [(''title'', JStr ''Pay rent''), (''dueDate'', JNum 5000)]"
  have h1: "js_field ?b ''dueDate'' = Some (JNum 5000)" by code_simp
  have h2: "joi_date sample_libs (JNum 5000) = Some 5000" by code_simp
  have h3: "(5000 :: int) \<le> 5000" by simp
  have p: "post_task sample_libs 5000 8 ann ?b sample_db = (Response 400 (error_body ''dueDate''), sample_db)"
    by code_simp
  have q: "put_task sample_libs 5000 ann 7 ?b sample_db = (Response 400 (error_body ''dueDate''), sample_db)"
    by code_simp
  have r: "fst (post_task sample_libs 4999 8 ann ?b sample_db)
       = Response 201 (JObj [(''message'', JStr ''Task created successfully''),
           (''task'', task_json \<lparr>task_id = 8, title = ''Pay rent'', description = None,
              status = ''pending'', priority = ''medium'', dueDate = Some 5000, owner = 1,
              createdAt = 4999, updatedAt = 4999\<rparr>)])"
    by code_simp
  from past_dueDate_rejected [OF h1 h2 h3, where oid = 8 and u = ann and db = sample_db and tid = 7]
  show ?thesis using h1 h2 p q r by simp
qed

section \<open>What the responses carry\<close>

lemma auth_Inl_error: "auth env header now db = Inl r \<Longrightarrow> \<exists>m. r = Response 401 (error_body m)"
  unfolding auth_def by (auto split: option.splits if_splits)

lemma toJSON_keys: "js_keys (toJSON sel u) = [''_id'', ''name'', ''email'', ''role'', ''createdAt'']"
  by (simp add: toJSON_def toObject_def delete_key_def js_keys_def)

lemma post_register_user:
  "response_user (fst (post_register env body now oid salt db)) = Some j \<Longrightarrow> \<exists>sel u. j = toJSON sel u"
  unfolding post_register_def
  by (auto split: sum.splits option.splits prod.splits simp: response_user_def js_field_def error_body_def bad_request_def)

lemma post_login_user:
  "response_user (fst (post_login env body now db)) = Some j \<Longrightarrow> \<exists>sel u. j = toJSON sel u"
  unfolding post_login_def
  by (auto split: sum.splits option.splits prod.splits if_splits simp: response_user_def js_field_def error_body_def bad_request_def)

lemma get_me_user:
  "response_user (fst (get_me env header now db)) = Some j \<Longrightarrow> \<exists>sel u. j = toJSON sel u"
  unfolding get_me_def
  by (auto split: sum.splits prod.splits dest!: auth_Inl_error simp: response_user_def js_field_def error_body_def bad_request_def)

text \<open>
  Claim C8. Whenever the response of register, login or me carries a user, that user is
  the document's \<^verbatim>\<open>toJSON\<close>: its keys are the id, the name, the email, the role and
  the creation date, and neither \<^verbatim>\<open>password\<close> (the stored hash) nor \<^verbatim>\<open>tokens\<close> (the
  active sessions) is among them.
\<close>

theorem user_json_hides_secrets:
  assumes "r = fst (post_register env body now oid salt db)
         \<or> r = fst (post_login env body now db)
         \<or> r = fst (get_me env header now db)"
      and "response_user r = Some j"
  shows "''password'' \<notin> set (js_keys j) \<and> ''tokens'' \<notin> set (js_keys j)
       \<and> js_keys j = [''_id'', ''name'', ''email'', ''role'', ''createdAt'']"
proof -
  from assms have "\<exists>sel u. j = toJSON sel u"
    by (auto dest: post_register_user post_login_user get_me_user)
  then show ?thesis by (auto simp: toJSON_keys)
qed

theorem user_json_hides_secrets_witness:
  "response_user (fst (post_login sample_libs
       (JObj [(''email'', JStr ''Bob@ex.io''), (''password'', JStr ''secret2'')]) 5 sample_db))
     = Some (JObj [(''_id'', JId 2), (''name'', JStr ''Bob''), (''email'', JStr ''bob@ex.io''),
                   (''role'', JStr ''user''), (''createdAt'', JDate 0)])
   \<and> response_user (fst (get_me sample_libs (Some ''Bearer jwt2'') 5 sample_db))
     = Some (JObj [(''_id'', JId 2), (''name'', JStr ''Bob''), (''email'', JStr ''bob@ex.io''),
                   (''role'', JStr ''user''), (''createdAt'', JDate 0)])
   \<and> response_user (fst (post_register sample_libs
       (JObj [(''name'', JStr ''Cy''), (''email'', JStr ''Cy@ex.io''), (''password'', JStr ''secret3'')])
       5 3 ''salt'' sample_db))
     = Some (JObj [(''_id'', JId 3), (''name'', JStr ''Cy''), (''email'', JStr ''cy@ex.io''),
                   (''role'', JStr ''user''), (''createdAt'', JDate 5)])
   \<and> ''password'' \<notin> set (js_keys (JObj [(''_id'', JId 2), (''name'', JStr ''Bob''), (''email'', JStr ''bob@ex.io''),
                   (''role'', JStr ''user''), (''createdAt'', JDate 0)]))"
proof -
  let ?j = "JObj [(''_id'', JId 2), (''name'', JStr ''Bob''), (''email'', JStr ''bob@ex.io''),
                   (''role'', JStr ''user''), (''createdAt'', JDate 0)]"
  have l: "response_user (fst (post_login sample_libs
       (JObj [(''email'', JStr ''Bob@ex.io''), (''password'', JStr ''secret2'')]) 5 sample_db)) = Some ?j"
    by code_simp
  have m: "response_user (fst (get_me sample_libs (Some ''Bearer jwt2'') 5 sample_db)) = Some ?j"
    by code_simp
  have g: "response_user (fst (post_register sample_libs
       (JObj [(''name'', JStr ''Cy''), (''email'', JStr ''Cy@ex.io''), (''password'', JStr ''secret3'')])
       5 3 ''salt'' sample_db))
     = Some (JObj [(''_id'', JId 3), (''name'', JStr ''Cy''), (''email'', JStr ''cy@ex.io''),
                   (''role'', JStr ''user''), (''createdAt'', JDate 5)])"
    by code_simp
  have "''password'' \<notin> set (js_keys ?j)"
    using user_json_hides_secrets [OF _ l, of sample_libs "JObj [(''email'', JStr ''Bob@ex.io''), (''password'', JStr ''secret2'')]" 5 0 "[]" sample_db None]
    by simp
  with l m g show ?thesis by simp
qed



text \<open>
  Claim C6. A login with a registered email and a password that does not match, and a
  login with an email no user has, get the same answer: status 401 with the body
  \<^verbatim>\<open>{ error: 'Invalid credentials' }\<close>, and neither changes the database. A login
  attempt is a body the login schema accepts; the email is looked up lower-cased.
\<close>

theorem login_failures_identical:
  assumes "loginSchema env body1 = Inr (email1, password1)"
      and "findOne_email email1 (users db1) = Some u"
      and "\<not> comparePassword env u password1"
      and "loginSchema env body2 = Inr (email2, password2)"
      and "findOne_email email2 (users db2) = None"
  shows "post_login env body1 now1 db1 = (Response 401 (error_body ''Invalid credentials''), db1)
       \<and> post_login env body2 now2 db2 = (Response 401 (error_body ''Invalid credentials''), db2)
       \<and> fst (post_login env body1 now1 db1) = fst (post_login env body2 now2 db2)"
  using assms unfolding post_login_def by simp

theorem login_failures_identical_witness:
  "loginSchema sample_libs (JObj [(''email'', JStr ''Bob@ex.io''), (''password'', JStr ''guess'')])
      = Inr (''Bob@ex.io'', ''guess'')
   \<and> findOne_email ''Bob@ex.io'' (users sample_db) = Some bob
   \<and> \<not> comparePassword sample_libs bob ''guess''
   \<and> loginSchema sample_libs (JObj [(''email'', JStr ''eve@ex.io''), (''password'', JStr ''secret2'')])
      = Inr (''eve@ex.io'', ''secret2'')
   \<and> findOne_email ''eve@ex.io'' (users sample_db) = None
   \<and> post_login sample_libs (JObj [(''email'', JStr ''Bob@ex.io''), (''password'', JStr ''guess'')]) 5 sample_db
      = (Response 401 (error_body ''Invalid credentials''), sample_db)
   \<and> post_login sample_libs (JObj [(''email'', JStr ''eve@ex.io''), (''password'', JStr ''secret2'')]) 6 sample_db
      = (Response 401 (error_body ''Invalid credentials''), sample_db)"
proof -
  have h1: "loginSchema sample_libs (JObj [(''email'', JStr ''Bob@ex.io''), (''password'', JStr ''guess'')])
      = Inr (''Bob@ex.io'', ''guess'')" by code_simp
  have h2: "findOne_email ''Bob@ex.io'' (users sample_db) = Some bob" by code_simp
  have h3: "\<not> comparePassword sample_libs bob ''guess''" by code_simp
  have h4: "loginSchema sample_libs (JObj [(''email'', JStr ''eve@ex.io''), (''password'', JStr ''secret2'')])
      = Inr (''eve@ex.io'', ''secret2'')" by code_simp
  have h5: "findOne_email ''eve@ex.io'' (users sample_db) = None" by code_simp
  from login_failures_identical [OF h1 h2 h3 h4 h5, where ?now1.0 = 5 and ?now2.0 = 6]
  show ?thesis using h1 h2 h3 h4 h5 by simp
qed

section \<open>What the routes keep\<close>

lemma replace_by_id_ids:
  "user_id u' = i \<Longrightarrow> map user_id (map (\<lambda>v. if user_id v = i then u' else v) us) = map user_id us"
  by (induction us) auto

lemma replace_by_id_emails:
  assumes "distinct (map user_id us)" and "u \<in> set us" and "user_id u = i" and "email u' = email u"
  shows "map email (map (\<lambda>v. if user_id v = i then u' else v) us) = map email us"
proof -
  have "email (if user_id v = i then u' else v) = email v" if "v \<in> set us" for v
  proof (cases "user_id v = i")
    case True
    from assms(1) have "inj_on user_id (set us)" by (simp add: distinct_map)
    with that assms(2,3) True have "v = u" by (auto dest: inj_onD)
    with assms(4) True show ?thesis by simp
  qed simp
  then show ?thesis by (induction us) auto
qed

lemma replace_fresh_last:
  assumes "\<forall>v \<in> set us. user_id v \<noteq> i" and "user_id u = i"
  shows "map (\<lambda>v. if user_id v = i then u' else v) (us @ [u]) = us @ [u']"
  using assms by (induction us) auto

lemma save_user_D:
  assumes "save_user env sel u us = Inr (u1, us1)"
  shows "u1 = u \<and> us1 = map (\<lambda>v. if user_id v = user_id u then u else v) us"
  using assms unfolding save_user_def pre_save_def Let_def
  by (auto split: option.splits if_splits)

lemma save_new_user_D:
  assumes "save_new_user env salt u us = Inr (u1, us1)"
  shows "user_id u1 = user_id u \<and> email u1 = email u \<and> us1 = us @ [u1]
       \<and> (\<forall>v \<in> set us. user_id v \<noteq> user_id u \<and> email v \<noteq> email u)"
  using assms unfolding save_new_user_def pre_save_def Let_def
  by (auto split: option.splits if_splits simp: list_ex_iff)

lemma generateAuthToken_users:
  assumes "generateAuthToken env sel now u us = Inr (tok, u1, us1)"
  shows "user_id u1 = user_id u \<and> email u1 = email u
       \<and> us1 = map (\<lambda>v. if user_id v = user_id u then u1 else v) us"
  using generateAuthToken_D [OF assms] by simp

lemma findOne_email_None: "findOne_email em us = None \<Longrightarrow> toLowerCase em \<notin> set (map email us)"
  unfolding findOne_email_def find_None_iff by auto

lemma findOne_email_Some: "toLowerCase em \<in> set (map email us) \<Longrightarrow> \<exists>u. findOne_email em us = Some u"
  unfolding findOne_email_def using find_None_iff [of "\<lambda>u. email u = toLowerCase em" us]
  by (cases "find (\<lambda>u. email u = toLowerCase em) us") auto

lemma post_register_users:
  assumes "post_register env body now oid salt db = (r, db')"
  shows "tasks db' = tasks db
       \<and> (db' = db \<and> (\<forall>b. r \<noteq> Response 201 b)
          \<or> (\<exists>nm em pw. registerSchema env body = Inr (nm, em, pw) \<and> grown db db' oid (toLowerCase em)))"
proof (cases "registerSchema env body")
  case (Inl e)
  with assms show ?thesis unfolding post_register_def by (auto simp: bad_request_def)
next
  case (Inr v)
  obtain nm em pw where v: "v = (nm, em, pw)" by (cases v)
  note s = Inr [unfolded v]
  show ?thesis
  proof (cases "findOne_email em (users db)")
    case (Some x)
    with assms s show ?thesis unfolding post_register_def by auto
  next
    case None
    note fresh = findOne_email_None [OF None]
    show ?thesis
    proof (cases "save_new_user env salt (new_user oid nm em pw now) (users db)")
      case (Inl err)
      with assms s None show ?thesis unfolding post_register_def by auto
    next
      case (Inr p)
      obtain u1 us1 where p: "p = (u1, us1)" by (cases p)
      from save_new_user_D [OF Inr [unfolded p]]
      have u1: "user_id u1 = oid" "email u1 = toLowerCase em" "us1 = users db @ [u1]"
        and others: "\<forall>v \<in> set (users db). user_id v \<noteq> oid"
        by (auto simp: new_user_def)
      have g1: "grown db (db\<lparr>users := us1\<rparr>) oid (toLowerCase em)"
        using u1 others fresh unfolding grown_def by auto
      show ?thesis
      proof (cases "generateAuthToken env True now u1 us1")
        case (Inl err)
        with assms s None Inr p g1 show ?thesis unfolding post_register_def by auto
      next
        case (Inr q)
        obtain tok u2 us2 where q: "q = (tok, u2, us2)" by (cases q)
        from generateAuthToken_users [OF Inr [unfolded q]]
        have u2: "user_id u2 = oid" "email u2 = toLowerCase em"
          and us2: "us2 = map (\<lambda>v. if user_id v = oid then u2 else v) (users db @ [u1])"
          using u1 by auto
        have "us2 = users db @ [u2]" unfolding us2 using others u1(1) by (rule replace_fresh_last)
        then have "grown db (db\<lparr>users := us2\<rparr>) oid (toLowerCase em)"
          using u2 others fresh unfolding grown_def by auto
        with assms s None \<open>save_new_user env salt (new_user oid nm em pw now) (users db) = Inr p\<close> p Inr q
        show ?thesis unfolding post_register_def by auto
      qed
    qed
  qed
qed


lemma post_login_users:
  assumes "distinct (map user_id (users db))" and "post_login env body now db = (r, db')"
  shows "map user_id (users db') = map user_id (users db)
       \<and> map email (users db') = map email (users db) \<and> tasks db' = tasks db"
proof (cases "\<exists>b. r = Response 200 b")
  case False
  with assms(2) have "db' = db" unfolding post_login_def
    by (auto split: sum.splits option.splits if_splits simp: bad_request_def)
  then show ?thesis by simp
next
  case True
  with assms(2) obtain em pw u tok u2 us2 where
    f: "findOne_email em (users db) = Some u"
    and g: "generateAuthToken env True now u (users db) = Inr (tok, u2, us2)"
    and d: "db' = db\<lparr>users := us2\<rparr>"
    unfolding post_login_def
    by (auto split: sum.splits option.splits if_splits simp: bad_request_def)
  from f have u: "u \<in> set (users db)" unfolding findOne_email_def by (auto dest: find_Some_D)
  note k = generateAuthToken_users [OF g]
  from k have us2: "us2 = map (\<lambda>v. if user_id v = user_id u then u2 else v) (users db)" by simp
  have "map user_id us2 = map user_id (users db)"
    unfolding us2 using k by (intro replace_by_id_ids) simp
  moreover have "map email us2 = map email (users db)"
    unfolding us2 using assms(1) u k by (intro replace_by_id_emails [of _ u]) simp_all
  ultimately show ?thesis using d by simp
qed

lemma post_logout_users:
  assumes "distinct (map user_id (users db))" and "post_logout env header now db = (r, db')"
  shows "map user_id (users db') = map user_id (users db)
       \<and> map email (users db') = map email (users db) \<and> tasks db' = tasks db"
proof (cases "\<exists>b. r = Response 200 b")
  case False
  with assms(2) have "db' = db" unfolding post_logout_def
    by (auto split: sum.splits option.splits if_splits)
  then show ?thesis by simp
next
  case True
  with assms(2) obtain u tok u1 us1 where
    a: "auth env header now db = Inr (u, tok)"
    and g: "save_user env False (u\<lparr>tokens := filter (\<lambda>t. t \<noteq> tok) (tokens u)\<rparr>) (users db) = Inr (u1, us1)"
    and d: "db' = db\<lparr>users := us1\<rparr>"
    unfolding post_logout_def
    by (auto split: sum.splits option.splits if_splits dest: auth_Inl_D)
  from auth_Inr_D [OF a] have u: "u \<in> set (users db)" by blast
  from save_user_D [OF g]
  have us1: "us1 = map (\<lambda>v. if user_id v = user_id u then u\<lparr>tokens := filter (\<lambda>t. t \<noteq> tok) (tokens u)\<rparr> else v) (users db)"
    by simp
  have "map user_id us1 = map user_id (users db)"
    unfolding us1 by (intro replace_by_id_ids) simp
  moreover have "map email us1 = map email (users db)"
    unfolding us1 using assms(1) u by (intro replace_by_id_emails [of _ u]) simp_all
  ultimately show ?thesis using d by simp
qed

lemma get_me_db: "snd (get_me env header now db) = db"
  unfolding get_me_def by (auto split: sum.splits)

lemma update_first_map: "(\<And>x. g (f x) = g x) \<Longrightarrow> map g (update_first P f xs) = map g xs"
  by (induction xs) auto

lemma set_remove_first: "set (remove_first P xs) \<subseteq> set xs"
  by (induction xs) auto

lemma distinct_remove_first: "distinct (map g xs) \<Longrightarrow> distinct (map g (remove_first P xs))"
proof (induction xs)
  case (Cons x xs)
  then show ?case using set_remove_first [of P xs] by auto
qed simp

lemma get_task_db: "snd (get_task u tid db) = db"
  unfolding get_task_def by (auto split: option.splits)

lemma get_tasks_db: "snd (get_tasks u q db) = db"
  unfolding get_tasks_def by (auto split: sum.splits)

lemma save_new_task_D:
  assumes "save_new_task now t ts = Inr (t', ts')"
  shows "t' = t\<lparr>updatedAt := now\<rparr> \<and> ts' = ts @ [t'] \<and> (\<forall>x \<in> set ts. task_id x \<noteq> task_id t)
       \<and> validate_task now t = None"
  using assms unfolding save_new_task_def pre_save_task_def Let_def
  by (auto split: option.splits if_splits simp: list_ex_iff)

lemma post_task_db:
  assumes "distinct (map task_id (tasks db))" and "post_task env now oid u body db = (r, db')"
  shows "users db' = users db \<and> distinct (map task_id (tasks db'))"
proof (cases "\<exists>b. r = Response 201 b")
  case False
  with assms(2) have "db' = db" unfolding post_task_def
    by (auto split: sum.splits simp: bad_request_def)
  with assms(1) show ?thesis by simp
next
  case True
  with assms(2) obtain v t ts where
    s: "save_new_task now (new_task oid v (user_id u) now) (tasks db) = Inr (t, ts)"
    and d: "db' = db\<lparr>tasks := ts\<rparr>"
    unfolding post_task_def by (auto split: sum.splits simp: bad_request_def)
  from save_new_task_D [OF s] have "ts = tasks db @ [t]" "task_id t = task_id (new_task oid v (user_id u) now)"
    "\<forall>x \<in> set (tasks db). task_id x \<noteq> task_id (new_task oid v (user_id u) now)"
    by auto
  with assms(1) d show ?thesis by auto
qed

lemma put_task_db:
  assumes "put_task env now u tid body db = (r, db')"
  shows "users db' = users db \<and> map task_id (tasks db') = map task_id (tasks db)"
proof -
  have "map task_id (update_first P (apply_update c) ts) = map task_id ts" for P c ts
    by (rule update_first_map) (simp add: apply_update_def)
  with assms show ?thesis unfolding put_task_def findOneAndUpdate_def Let_def
    by (auto split: sum.splits option.splits if_splits prod.splits)
qed

lemma delete_task_db:
  assumes "distinct (map task_id (tasks db))" and "delete_task u tid db = (r, db')"
  shows "users db' = users db \<and> distinct (map task_id (tasks db'))"
  using assms unfolding delete_task_def findOneAndDelete_def Let_def
  by (auto split: option.splits intro: distinct_remove_first)

lemma guarded_cases:
  assumes "guarded env header now db handler = (r, db')"
  shows "db' = db \<or> (\<exists>u. handler u = (r, db'))"
  using assms unfolding guarded_def by (auto split: sum.splits)

lemma handle_keeps:
  assumes "unique_keys db" and "handle env req db = (r, db')"
  shows "unique_keys db' \<and> set (map email (users db)) \<subseteq> set (map email (users db'))"
proof (cases req)
  case (Register body now oid salt)
  with assms(2) have "post_register env body now oid salt db = (r, db')" by simp
  from post_register_users [OF this]
  consider "db' = db" | em where "grown db db' oid em" "tasks db' = tasks db" by blast
  then show ?thesis
  proof cases
    case 1
    with assms(1) show ?thesis by simp
  next
    case 2
    from 2(1) have e: "map email (users db') = map email (users db) @ [em]"
      and i: "map user_id (users db') = map user_id (users db) @ [oid]"
      and f: "oid \<notin> set (map user_id (users db))" "em \<notin> set (map email (users db))"
      unfolding grown_def by blast+
    have "distinct (map email (users db'))" using assms(1) f(2)
      unfolding e unique_keys_def by simp
    moreover have "distinct (map user_id (users db'))" using assms(1) f(1)
      unfolding i unique_keys_def by simp
    moreover have "set (map email (users db)) \<subseteq> set (map email (users db'))"
      unfolding e by auto
    ultimately show ?thesis using assms(1) 2(2) unfolding unique_keys_def by simp
  qed
next
  case (Login body now)
  with assms(2) have "post_login env body now db = (r, db')" by simp
  from post_login_users [OF _ this] assms(1) show ?thesis unfolding unique_keys_def by auto
next
  case (Me header now)
  with assms(2) get_me_db [of env header now db] have "db' = db" by simp
  with assms(1) show ?thesis by simp
next
  case (Logout header now)
  with assms(2) have "post_logout env header now db = (r, db')" by simp
  from post_logout_users [OF _ this] assms(1) show ?thesis unfolding unique_keys_def by auto
next
  case (ListTasks header now q)
  with assms(2) guarded_cases [of env header now db "\<lambda>u. get_tasks u q db" r db']
    get_tasks_db have "db' = db" by (metis handle.simps(5) snd_conv)
  with assms(1) show ?thesis by simp
next
  case (GetTask header now tid)
  with assms(2) guarded_cases [of env header now db "\<lambda>u. get_task u tid db" r db']
    get_task_db have "db' = db" by (metis handle.simps(6) snd_conv)
  with assms(1) show ?thesis by simp
next
  case (CreateTask header now oid body)
  with assms(2) guarded_cases [of env header now db "\<lambda>u. post_task env now oid u body db" r db']
  have "db' = db \<or> (\<exists>u. post_task env now oid u body db = (r, db'))" by simp
  with assms(1) post_task_db show ?thesis unfolding unique_keys_def by fastforce
next
  case (UpdateTask header now tid body)
  with assms(2) guarded_cases [of env header now db "\<lambda>u. put_task env now u tid body db" r db']
  have "db' = db \<or> (\<exists>u. put_task env now u tid body db = (r, db'))" by simp
  with assms(1) put_task_db show ?thesis unfolding unique_keys_def by fastforce
next
  case (DeleteTask header now tid)
  with assms(2) guarded_cases [of env header now db "\<lambda>u. delete_task u tid db" r db']
  have "db' = db \<or> (\<exists>u. delete_task u tid db = (r, db'))" by simp
  with assms(1) delete_task_db show ?thesis unfolding unique_keys_def by fastforce
qed

lemma run_keeps:
  "unique_keys db \<Longrightarrow>
     unique_keys (run env reqs db) \<and> set (map email (users db)) \<subseteq> set (map email (users (run env reqs db)))"
proof (induction reqs arbitrary: db)
  case Nil
  then show ?case by simp
next
  case (Cons r rs)
  obtain x db' where h: "handle env r db = (x, db')" by (cases "handle env r db")
  from handle_keeps [OF Cons.prems h] Cons.IH [of db'] h show ?case by auto
qed


lemma run_from_empty_unique_keys: "unique_keys (run env reqs \<lparr>users = [], tasks = []\<rparr>)"
proof -
  have "unique_keys \<lparr>users = [], tasks = []\<rparr>" by (simp add: unique_keys_def)
  from run_keeps [OF this] show ?thesis by simp
qed

section \<open>One email, one user\<close>

text \<open>
  Claim C4. After a registration has succeeded, and whatever requests the server has
  handled since, a registration whose email is the same up to case is answered 400 and
  creates no user; when its body passes the schema the error is the one of the
  duplicate email. So of two such attempts at most one succeeds, and the emails of the
  stored users stay pairwise different.
\<close>

theorem registered_email_stays_unique:
  assumes keys: "unique_keys db0"
      and first: "post_register env body1 now1 oid1 salt1 db0 = (Response 201 r1, db1)"
      and e1: "js_field body1 ''email'' = Some (JStr email1)"
      and e2: "js_field body2 ''email'' = Some (JStr email2)"
      and same: "toLowerCase email1 = toLowerCase email2"
      and later: "db2 = run env reqs db1"
  shows "(\<exists>m. post_register env body2 now2 oid2 salt2 db2 = (Response 400 (error_body m), db2))
       \<and> (\<forall>v. registerSchema env body2 = Inr v \<longrightarrow>
            post_register env body2 now2 oid2 salt2 db2
              = (Response 400 (error_body ''User already exists with this email''), db2))
       \<and> distinct (map email (users db2))"
proof -
  from post_register_users [OF first] obtain nm em pw where
    s1: "registerSchema env body1 = Inr (nm, em, pw)" and g: "grown db0 db1 oid1 (toLowerCase em)"
    by auto
  from registerSchema_email [OF s1] e1 have "em = email1" by simp
  with g same have in1: "toLowerCase email2 \<in> set (map email (users db1))"
    unfolding grown_def by simp
  have "handle env (Register body1 now1 oid1 salt1) db0 = (Response 201 r1, db1)"
    using first by simp
  from handle_keeps [OF keys this] have k1: "unique_keys db1" by simp
  from run_keeps [OF k1, of env reqs] later in1
  have k2: "unique_keys db2" and in2: "toLowerCase email2 \<in> set (map email (users db2))"
    by auto
  have dup: "post_register env body2 now2 oid2 salt2 db2
              = (Response 400 (error_body ''User already exists with this email''), db2)"
    if v: "registerSchema env body2 = Inr v" for v
  proof -
    obtain nm2 em2 pw2 where v': "v = (nm2, em2, pw2)" by (cases v)
    from registerSchema_email [OF v [unfolded v']] e2 have "em2 = email2" by simp
    with findOne_email_Some [OF in2] obtain x where "findOne_email em2 (users db2) = Some x"
      by auto
    then show ?thesis unfolding post_register_def v v' by simp
  qed
  have "\<exists>m. post_register env body2 now2 oid2 salt2 db2 = (Response 400 (error_body m), db2)"
  proof (cases "registerSchema env body2")
    case (Inl e)
    then show ?thesis unfolding post_register_def by (auto simp: bad_request_def)
  next
    case (Inr v)
    from dup [OF this] show ?thesis by blast
  qed
  with dup k2 show ?thesis unfolding unique_keys_def by blast
qed

theorem registered_email_stays_unique_witness:
  "unique_keys sample_db
   \<and> post_register sample_libs
        (JObj [(''name'', JStr ''Cy''), (''email'', JStr ''Cy@ex.io''), (''password'', JStr ''secret3'')])
        5 3 ''salt'' sample_db
      = (Response 201 (JObj [(''message'', JStr ''User registered successfully''),
                             (''user'', toJSON True cy), (''token'', JStr ''jwt3'')]),
         sample_db\<lparr>users := [ann, bob, cy]\<rparr>)
   \<and> toLowerCase ''Cy@ex.io'' = toLowerCase ''CY@EX.IO''
   \<and> run sample_libs [Logout (Some ''Bearer jwt2'') 6] (sample_db\<lparr>users := [ann, bob, cy]\<rparr>)
      = sample_db\<lparr>users := [ann, bob\<lparr>tokens := []\<rparr>, cy]\<rparr>
   \<and> post_register sample_libs
        (JObj [(''name'', JStr ''Cyd''), (''email'', JStr ''CY@EX.IO''), (''password'', JStr ''secret4'')])
        7 4 ''pepper'' (sample_db\<lparr>users := [ann, bob\<lparr>tokens := []\<rparr>, cy]\<rparr>)
      = (Response 400 (error_body ''User already exists with this email''),
         sample_db\<lparr>users := [ann, bob\<lparr>tokens := []\<rparr>, cy]\<rparr>)
   \<and> distinct (map email (users (sample_db\<lparr>users := [ann, bob\<lparr>tokens := []\<rparr>, cy]\<rparr>)))"
proof -
  let ?b1 = "JObj [(''name'', JStr ''Cy''), (''email'', JStr ''Cy@ex.io''), (''password'', JStr ''secret3'')]"
  let ?b2 = "JObj [(''name'', JStr ''Cyd''), (''email'', JStr ''CY@EX.IO''), (''password'', JStr ''secret4'')]"
  let ?db2 = "sample_db\<lparr>users := [ann, bob\<lparr>tokens := []\<rparr>, cy]\<rparr>"
  have k: "unique_keys sample_db" by code_simp
  have f: "post_register sample_libs ?b1 5 3 ''salt'' sample_db
      = (Response 201 (JObj [(''message'', JStr ''User registered successfully''),
                             (''user'', toJSON True cy), (''token'', JStr ''jwt3'')]),
         sample_db\<lparr>users := [ann, bob, cy]\<rparr>)" by code_simp
  have e1: "js_field ?b1 ''email'' = Some (JStr ''Cy@ex.io'')" by code_simp
  have e2: "js_field ?b2 ''email'' = Some (JStr ''CY@EX.IO'')" by code_simp
  have s: "toLowerCase ''Cy@ex.io'' = toLowerCase ''CY@EX.IO''" by code_simp
  have l: "?db2 = run sample_libs [Logout (Some ''Bearer jwt2'') 6] (sample_db\<lparr>users := [ann, bob, cy]\<rparr>)"
    by code_simp
  have v: "registerSchema sample_libs ?b2 = Inr (''Cyd'', ''CY@EX.IO'', ''secret4'')" by code_simp
  from registered_email_stays_unique [OF k f e1 e2 s l, where ?now2.0 = 7 and ?oid2.0 = 4 and ?salt2.0 = "''pepper''"] v
  have "post_register sample_libs ?b2 7 4 ''pepper'' ?db2
      = (Response 400 (error_body ''User already exists with this email''), ?db2)"
    and "distinct (map email (users ?db2))" by blast+
  with k f s l [symmetric] show ?thesis by simp
qed

section \<open>Tasks of another owner\<close>

lemma remove_first_none: "find P xs = None \<Longrightarrow> remove_first P xs = xs"
  by (induction xs) (auto split: if_splits)

lemma find_foreign:
  assumes "distinct (map task_id ts)" and "t \<in> set ts" and "owner t \<noteq> uid"
  shows "find (\<lambda>x. task_id x = task_id t \<and> owner x = uid) ts = None"
proof -
  from assms(1) have "inj_on task_id (set ts)" by (simp add: distinct_map)
  with assms(2) have "x = t" if "x \<in> set ts" "task_id x = task_id t" for x
    using that by (auto dest: inj_onD)
  with assms(3) show ?thesis unfolding find_None_iff by blast
qed

lemma find_absent:
  "find (\<lambda>x. task_id x = tid \<and> owner x = uid) (filter (\<lambda>x. task_id x \<noteq> tid) ts) = None"
  unfolding find_None_iff by simp

lemma get_task_none:
  "find (\<lambda>x. task_id x = tid \<and> owner x = user_id u) (tasks db) = None \<Longrightarrow>
     get_task u tid db = (Response 404 (error_body ''Task not found''), db)"
  unfolding get_task_def by simp

lemma delete_task_none:
  "find (\<lambda>x. task_id x = tid \<and> owner x = user_id u) (tasks db) = None \<Longrightarrow>
     delete_task u tid db = (Response 404 (error_body ''Task not found''), db)"
  unfolding delete_task_def findOneAndDelete_def Let_def by simp

lemma put_task_none:
  assumes "find (\<lambda>x. task_id x = tid \<and> owner x = user_id u) (tasks db) = None"
  shows "put_task env now u tid body db =
     (case taskSchema env now body of
        Inl e \<Rightarrow> (bad_request env e, db)
      | Inr v \<Rightarrow>
          (case validate_update now (cast_fields v) of
             Some m \<Rightarrow> (NextError (ValidationFailed m), db)
           | None \<Rightarrow> (Response 404 (error_body ''Task not found''), db)))"
  using assms unfolding put_task_def findOneAndUpdate_def Let_def
  by (auto split: sum.splits option.splits)

text \<open>
  Claim C2, with the update restricted to bodies that pass validation. For a task of
  one user and another user as caller, get and delete by the task's id answer 404, and
  so does an update whose body passes the request schema and the validators of the
  update, which are checked before the query. Whatever the body, the update leaves the
  database as it was, and each of the three responses is the one the same request gets
  from a database where no task has that id.
\<close>

theorem foreign_task_not_found:
  assumes "distinct (map task_id (tasks db))" and "t \<in> set (tasks db)" and "owner t \<noteq> user_id b"
  shows "get_task b (task_id t) db = (Response 404 (error_body ''Task not found''), db)
       \<and> delete_task b (task_id t) db = (Response 404 (error_body ''Task not found''), db)
       \<and> (\<forall>v. taskSchema env now body = Inr v \<and> validate_update now (cast_fields v) = None \<longrightarrow>
            put_task env now b (task_id t) body db = (Response 404 (error_body ''Task not found''), db))
       \<and> snd (put_task env now b (task_id t) body db) = db
       \<and> (let gone = db\<lparr>tasks := filter (\<lambda>x. task_id x \<noteq> task_id t) (tasks db)\<rparr> in
            fst (get_task b (task_id t) db) = fst (get_task b (task_id t) gone)
          \<and> fst (delete_task b (task_id t) db) = fst (delete_task b (task_id t) gone)
          \<and> fst (put_task env now b (task_id t) body db) = fst (put_task env now b (task_id t) body gone))"
proof -
  let ?gone = "db\<lparr>tasks := filter (\<lambda>x. task_id x \<noteq> task_id t) (tasks db)\<rparr>"
  note n = find_foreign [OF assms]
  have n': "find (\<lambda>x. task_id x = task_id t \<and> owner x = user_id b) (tasks ?gone) = None"
    using find_absent [of "task_id t" "user_id b" "tasks db"] by simp
  note g = get_task_none [OF n] and d = delete_task_none [OF n] and p = put_task_none [OF n]
  note g' = get_task_none [OF n'] and d' = delete_task_none [OF n'] and p' = put_task_none [OF n']
  have 1: "\<forall>v. taskSchema env now body = Inr v \<and> validate_update now (cast_fields v) = None \<longrightarrow>
            put_task env now b (task_id t) body db = (Response 404 (error_body ''Task not found''), db)"
    unfolding p by simp
  have 2: "snd (put_task env now b (task_id t) body db) = db"
    unfolding p by (simp split: sum.splits option.splits)
  have 4: "fst (put_task env now b (task_id t) body db) = fst (put_task env now b (task_id t) body ?gone)"
    unfolding p p' by (simp split: sum.splits option.splits)
  have 5: "(let gone = db\<lparr>tasks := filter (\<lambda>x. task_id x \<noteq> task_id t) (tasks db)\<rparr> in
            fst (get_task b (task_id t) db) = fst (get_task b (task_id t) gone)
          \<and> fst (delete_task b (task_id t) db) = fst (delete_task b (task_id t) gone)
          \<and> fst (put_task env now b (task_id t) body db) = fst (put_task env now b (task_id t) body gone))"
    unfolding Let_def g g' d d' using 4 by simp
  from g d 1 2 5 show ?thesis by blast
qed

theorem foreign_task_not_found_witness:
  "distinct (map task_id (tasks sample_db)) \<and> ann_task \<in> set (tasks sample_db)
   \<and> owner ann_task \<noteq> user_id bob
   \<and> taskSchema sample_libs 5000 (JObj [(''title'', JStr ''Mine now'')])
       = Inr \<lparr>f_title = ''Mine now'', f_description = None, f_status = None, f_priority = None,
              f_dueDate = None\<rparr>
   \<and> get_task bob 7 sample_db = (Response 404 (error_body ''Task not found''), sample_db)
   \<and> delete_task bob 7 sample_db = (Response 404 (error_body ''Task not found''), sample_db)
   \<and> put_task sample_libs 5000 bob 7 (JObj [(''title'', JStr ''Mine now'')]) sample_db
       = (Response 404 (error_body ''Task not found''), sample_db)
   \<and> fst (get_task ann 7 sample_db) = Response 200 (JObj [(''task'', task_json ann_task)])"
proof -
  have h1: "distinct (map task_id (tasks sample_db))" by code_simp
  have h2: "ann_task \<in> set (tasks sample_db)" by code_simp
  have h3: "owner ann_task \<noteq> user_id bob" by code_simp
  have i: "task_id ann_task = 7" by code_simp
  have v: "taskSchema sample_libs 5000 (JObj [(''title'', JStr ''Mine now'')])
       = Inr \<lparr>f_title = ''Mine now'', f_description = None, f_status = None, f_priority = None,
              f_dueDate = None\<rparr>" by code_simp
  have w: "validate_update 5000 (cast_fields \<lparr>f_title = ''Mine now'', f_description = None,
              f_status = None, f_priority = None, f_dueDate = None\<rparr>) = None" by code_simp
  have a: "fst (get_task ann 7 sample_db) = Response 200 (JObj [(''task'', task_json ann_task)])"
    by code_simp
  from foreign_task_not_found [OF h1 h2 h3, of sample_libs 5000 "JObj [(''title'', JStr ''Mine now'')]"] v w
  have "get_task bob 7 sample_db = (Response 404 (error_body ''Task not found''), sample_db)
      \<and> delete_task bob 7 sample_db = (Response 404 (error_body ''Task not found''), sample_db)
      \<and> put_task sample_libs 5000 bob 7 (JObj [(''title'', JStr ''Mine now'')]) sample_db
          = (Response 404 (error_body ''Task not found''), sample_db)"
    unfolding i by blast
  with h1 h2 h3 v a show ?thesis by simp
qed

text \<open>
  The claim as first stated has every update by the other user answered 404. An update
  whose body has no title is answered 400 by the schema, whoever owns the task.
\<close>

theorem foreign_update_without_title_counterexample:
  "ann_task \<in> set (tasks sample_db) \<and> owner ann_task \<noteq> user_id bob
   \<and> put_task sample_libs 5000 bob (task_id ann_task) (JObj [(''status'', JStr ''completed'')]) sample_db
       = (Response 400 (error_body (joi_message sample_libs ''title'' any_required)), sample_db)
   \<and> fst (put_task sample_libs 5000 bob (task_id ann_task) (JObj [(''status'', JStr ''completed'')]) sample_db)
       \<noteq> Response 404 (error_body ''Task not found'')"
  by code_simp

section \<open>What an update changes\<close>

lemma findOneAndUpdate_Some:
  assumes "findOneAndUpdate now tid uid v ts = Inr (Some t', ts')"
  shows "\<exists>t. find (\<lambda>x. task_id x = tid \<and> owner x = uid) ts = Some t
           \<and> t' = apply_update (cast_fields v) t
           \<and> ts' = update_first (\<lambda>x. task_id x = tid \<and> owner x = uid) (apply_update (cast_fields v)) ts"
  using assms unfolding findOneAndUpdate_def Let_def
  by (auto split: option.splits)

lemma taskSchema_absent:
  assumes "taskSchema env now body = Inr v"
  shows "(js_field body ''description'' = None \<longrightarrow> f_description v = None)
       \<and> (js_field body ''status'' = None \<longrightarrow> f_status v = None)
       \<and> (js_field body ''priority'' = None \<longrightarrow> f_priority v = None)
       \<and> (js_field body ''dueDate'' = None \<longrightarrow> f_dueDate v = None)"
  using assms unfolding taskSchema_def js_field_def
  by (cases body)
     (auto simp: and_then_Inr_iff optional_Inr_iff dest!: no_unknown_Inr)

text \<open>
  Claim C3 on the code. A successful update sets the fields the body supplies; a field
  the body leaves out keeps its value, and so do the id, the owner and
  \<^verbatim>\<open>createdAt\<close>. The claim also has \<^verbatim>\<open>updatedAt\<close> set to a later time. It is
  not: the hook that refreshes it runs on \<^verbatim>\<open>save\<close>, the route updates through
  \<^verbatim>\<open>findOneAndUpdate\<close>, and \<^verbatim>\<open>updatedAt\<close> keeps the value it had.
\<close>

theorem update_keeps_updatedAt:
  assumes "put_task env now u tid body db = (Response 200 b, db')"
  shows "\<exists>t v. find (\<lambda>x. task_id x = tid \<and> owner x = user_id u) (tasks db) = Some t
           \<and> taskSchema env now body = Inr v
           \<and> b = JObj [(''message'', JStr ''Task updated successfully''),
                       (''task'', task_json (apply_update (cast_fields v) t))]
           \<and> tasks db' = update_first (\<lambda>x. task_id x = tid \<and> owner x = user_id u)
                            (apply_update (cast_fields v)) (tasks db)
           \<and> (js_field body ''description'' = None \<longrightarrow>
                 description (apply_update (cast_fields v) t) = description t)
           \<and> (js_field body ''status'' = None \<longrightarrow>
                 status (apply_update (cast_fields v) t) = status t)
           \<and> (js_field body ''priority'' = None \<longrightarrow>
                 priority (apply_update (cast_fields v) t) = priority t)
           \<and> (js_field body ''dueDate'' = None \<longrightarrow>
                 dueDate (apply_update (cast_fields v) t) = dueDate t)
           \<and> task_id (apply_update (cast_fields v) t) = task_id t
           \<and> owner (apply_update (cast_fields v) t) = owner t
           \<and> createdAt (apply_update (cast_fields v) t) = createdAt t
           \<and> updatedAt (apply_update (cast_fields v) t) = updatedAt t"
proof -
  from assms obtain v t' ts' where v: "taskSchema env now body = Inr v"
    and f: "findOneAndUpdate now tid (user_id u) v (tasks db) = Inr (Some t', ts')"
    and b: "b = JObj [(''message'', JStr ''Task updated successfully''), (''task'', task_json t')]"
    and d: "db' = db\<lparr>tasks := ts'\<rparr>"
    unfolding put_task_def
    by (auto split: sum.splits option.splits prod.splits simp: bad_request_def error_body_def)
  from findOneAndUpdate_Some [OF f] obtain t where
    t: "find (\<lambda>x. task_id x = tid \<and> owner x = user_id u) (tasks db) = Some t"
       "t' = apply_update (cast_fields v) t"
       "ts' = update_first (\<lambda>x. task_id x = tid \<and> owner x = user_id u) (apply_update (cast_fields v)) (tasks db)"
    by blast
  have frame: "(js_field body ''description'' = None \<longrightarrow>
                 description (apply_update (cast_fields v) t) = description t)
           \<and> (js_field body ''status'' = None \<longrightarrow>
                 status (apply_update (cast_fields v) t) = status t)
           \<and> (js_field body ''priority'' = None \<longrightarrow>
                 priority (apply_update (cast_fields v) t) = priority t)
           \<and> (js_field body ''dueDate'' = None \<longrightarrow>
                 dueDate (apply_update (cast_fields v) t) = dueDate t)"
    using taskSchema_absent [OF v] by (auto simp: apply_update_def cast_fields_def)
  have fixed: "task_id (apply_update (cast_fields v) t) = task_id t
           \<and> owner (apply_update (cast_fields v) t) = owner t
           \<and> createdAt (apply_update (cast_fields v) t) = createdAt t
           \<and> updatedAt (apply_update (cast_fields v) t) = updatedAt t"
    by (simp add: apply_update_def)
  from t v b d frame fixed show ?thesis by auto
qed

theorem update_keeps_updatedAt_witness:
  "put_task sample_libs 5000 ann 7
       (JObj [(''title'', JStr ''Write report''), (''status'', JStr ''completed'')]) sample_db
     = (Response 200 (JObj [(''message'', JStr ''Task updated successfully''),
                            (''task'', task_json (ann_task\<lparr>status := ''completed''\<rparr>))]),
        sample_db\<lparr>tasks := [ann_task\<lparr>status := ''completed''\<rparr>]\<rparr>)
   \<and> updatedAt ann_task = 1000
   \<and> updatedAt (ann_task\<lparr>status := ''completed''\<rparr>) = 1000"
proof -
  have p: "put_task sample_libs 5000 ann 7
       (JObj [(''title'', JStr ''Write report''), (''status'', JStr ''completed'')]) sample_db
     = (Response 200 (JObj [(''message'', JStr ''Task updated successfully''),
                            (''task'', task_json (ann_task\<lparr>status := ''completed''\<rparr>))]),
        sample_db\<lparr>tasks := [ann_task\<lparr>status := ''completed''\<rparr>]\<rparr>)"
    by code_simp
  have f: "find (\<lambda>x. task_id x = 7 \<and> owner x = user_id ann) (tasks sample_db) = Some ann_task"
    by code_simp
  have u: "updatedAt ann_task = 1000" by code_simp
  from update_keeps_updatedAt [OF p] f u
  have "updatedAt (ann_task\<lparr>status := ''completed''\<rparr>) = 1000" by simp
  with p u show ?thesis by simp
qed

section \<open>A header without the Bearer prefix\<close>

lemma startsWith_iff: "startsWith p s \<longleftrightarrow> (\<exists>t. s = p @ t)"
  by (induction p s rule: startsWith.induct) auto

lemma str_includes_iff: "str_includes p s \<longleftrightarrow> (\<exists>x y. s = x @ p @ y)"
proof (induction s)
  case Nil
  then show ?case by auto
next
  case (Cons c cs)
  show ?case
  proof
    assume "str_includes p (c # cs)"
    then consider "startsWith p (c # cs)" | "str_includes p cs" by auto
    then show "\<exists>x y. c # cs = x @ p @ y"
    proof cases
      case 1
      then obtain t where "c # cs = p @ t" unfolding startsWith_iff by blast
      then have "c # cs = [] @ p @ t" by simp
      then show ?thesis by blast
    next
      case 2
      then obtain x y where "cs = x @ p @ y" using Cons.IH by blast
      then have "c # cs = (c # x) @ p @ y" by simp
      then show ?thesis by blast
    qed
  next
    assume "\<exists>x y. c # cs = x @ p @ y"
    then obtain x y where e: "c # cs = x @ p @ y" by blast
    show "str_includes p (c # cs)"
    proof (cases x)
      case Nil
      then have "startsWith p (c # cs)" using e startsWith_iff by auto
      then show ?thesis by simp
    next
      case (Cons d x')
      then have "cs = x' @ p @ y" using e by simp
      then have "str_includes p cs" using Cons.IH by blast
      then show ?thesis by simp
    qed
  qed
qed

lemma replace_first_first:
  assumes "p \<noteq> []"
  shows "\<not> (\<exists>x y. a @ butlast p = x @ p @ y) \<Longrightarrow> replace_first p r (a @ p @ b) = a @ r @ b"
proof (induction a)
  case Nil
  show ?case using replace_first_prefix [of p r b] by simp
next
  case (Cons c a)
  have n: "\<not> startsWith p (c # a @ p @ b)"
  proof
    assume "startsWith p (c # a @ p @ b)"
    then obtain t where t: "c # a @ p @ b = p @ t" unfolding startsWith_iff by blast
    have "(c # a @ butlast p) @ (last p # b) = p @ t"
      using t assms by (metis append.assoc append_Cons append_Nil append_butlast_last_id)
    moreover have "length p \<le> length (c # a @ butlast p)" by simp
    ultimately obtain y where "c # a @ butlast p = p @ y"
      by (metis append_eq_append_conv_if append_take_drop_id)
    then have "(c # a) @ butlast p = [] @ p @ y" by simp
    with Cons.prems show False by blast
  qed
  have "\<not> (\<exists>x y. a @ butlast p = x @ p @ y)"
  proof
    assume "\<exists>x y. a @ butlast p = x @ p @ y"
    then obtain x y where "a @ butlast p = x @ p @ y" by blast
    then have "(c # a) @ butlast p = (c # x) @ p @ y" by simp
    with Cons.prems show False by blast
  qed
  then have "replace_first p r (a @ p @ b) = a @ r @ b" by (rule Cons.IH)
  with n show ?case by simp
qed

lemma auth_verify_and_find:
  "replace_first ''Bearer '' [] h = tok \<Longrightarrow> tok \<noteq> [] \<Longrightarrow>
     auth env (Some h) now db = verify_and_find env tok now db"
  unfolding verify_and_find_def by (rule auth_token)

lemma verify_and_find_cases:
  "verify_and_find env tok now db \<noteq> Inl (Response 401 (error_body ''No token, authorization denied''))
   \<and> (jwt_verify env tok now = None \<longrightarrow>
        verify_and_find env tok now db = Inl (Response 401 (error_body ''Token is not valid'')))
   \<and> (\<forall>c. jwt_verify env tok now = Some c
            \<and> \<not> (\<exists>u \<in> set (users db). user_id u = c_id c \<and> tok \<in> set (tokens u)) \<longrightarrow>
        verify_and_find env tok now db = Inl (Response 401 (error_body ''Token is not valid'')))
   \<and> (\<forall>c u. jwt_verify env tok now = Some c
            \<and> u \<in> set (users db) \<and> user_id u = c_id c \<and> tok \<in> set (tokens u) \<longrightarrow>
        (\<exists>u'. verify_and_find env tok now db = Inr (u', tok) \<and> u' \<in> set (users db)
             \<and> user_id u' = c_id c \<and> tok \<in> set (tokens u')))"
proof (intro conjI allI impI)
  show "verify_and_find env tok now db \<noteq> Inl (Response 401 (error_body ''No token, authorization denied''))"
    unfolding verify_and_find_def by (simp add: error_body_def split: option.splits)
next
  assume "jwt_verify env tok now = None"
  then show "verify_and_find env tok now db = Inl (Response 401 (error_body ''Token is not valid''))"
    unfolding verify_and_find_def by simp
next
  fix c
  assume a: "jwt_verify env tok now = Some c
            \<and> \<not> (\<exists>u \<in> set (users db). user_id u = c_id c \<and> tok \<in> set (tokens u))"
  then have "find (\<lambda>u. user_id u = c_id c \<and> tok \<in> set (tokens u)) (users db) = None"
    by (auto simp: find_None_iff)
  with a show "verify_and_find env tok now db = Inl (Response 401 (error_body ''Token is not valid''))"
    unfolding verify_and_find_def by simp
next
  fix c u
  assume a: "jwt_verify env tok now = Some c
            \<and> u \<in> set (users db) \<and> user_id u = c_id c \<and> tok \<in> set (tokens u)"
  then obtain y where y: "find (\<lambda>u. user_id u = c_id c \<and> tok \<in> set (tokens u)) (users db) = Some y"
      "user_id y = c_id c \<and> tok \<in> set (tokens y)"
    using find_ex [of u "users db" "\<lambda>u. user_id u = c_id c \<and> tok \<in> set (tokens u)"] by blast
  from y(1) have "y \<in> set (users db)" by (auto dest: find_Some_D)
  with a y show "\<exists>u'. verify_and_find env tok now db = Inr (u', tok) \<and> u' \<in> set (users db)
             \<and> user_id u' = c_id c \<and> tok \<in> set (tokens u')"
    unfolding verify_and_find_def by simp
qed

text \<open>
  Claim C9. A non-empty Authorization header that does not begin with \<^verbatim>\<open>'Bearer '\<close>
  is never answered with the missing-token response. The token the middleware verifies
  is the header itself when \<^verbatim>\<open>'Bearer '\<close> occurs nowhere in it, and the header with
  its first \<^verbatim>\<open>'Bearer '\<close> cut out when it occurs (the header is \<open>a @ 'Bearer ' @ b\<close>
  with no occurrence that begins inside \<open>a\<close>, the token \<open>a @ b\<close>; a later occurrence
  stays in the token). With that token the request is treated as any request is: 401
  \<^verbatim>\<open>'Token is not valid'\<close> when the token does not verify or no user with the decoded
  id lists it, and accepted as such a user otherwise. So a raw token sent without the
  prefix is accepted if it is valid.
\<close>

theorem auth_accepts_header_without_prefix:
  assumes "h \<noteq> []" and "\<not> (\<exists>t. h = ''Bearer '' @ t)"
  shows "auth env (Some h) now db \<noteq> Inl (Response 401 (error_body ''No token, authorization denied''))
       \<and> (\<forall>tok. (\<not> (\<exists>x y. h = x @ ''Bearer '' @ y) \<and> tok = h)
                \<or> (\<exists>a b. h = a @ ''Bearer '' @ b \<and> \<not> (\<exists>x y. a @ ''Bearer'' = x @ ''Bearer '' @ y)
                         \<and> tok = a @ b)
            \<longrightarrow> auth env (Some h) now db = verify_and_find env tok now db
              \<and> (jwt_verify env tok now = None \<longrightarrow>
                   auth env (Some h) now db = Inl (Response 401 (error_body ''Token is not valid'')))
              \<and> (\<forall>c. jwt_verify env tok now = Some c
                       \<and> \<not> (\<exists>u \<in> set (users db). user_id u = c_id c \<and> tok \<in> set (tokens u)) \<longrightarrow>
                   auth env (Some h) now db = Inl (Response 401 (error_body ''Token is not valid'')))
              \<and> (\<forall>c u. jwt_verify env tok now = Some c
                       \<and> u \<in> set (users db) \<and> user_id u = c_id c \<and> tok \<in> set (tokens u) \<longrightarrow>
                   (\<exists>u'. auth env (Some h) now db = Inr (u', tok) \<and> u' \<in> set (users db)
                        \<and> user_id u' = c_id c \<and> tok \<in> set (tokens u'))))"
proof -
  have ns: "\<not> startsWith ''Bearer '' h" using assms(2) unfolding startsWith_iff .
  let ?tok = "replace_first ''Bearer '' [] h"
  have ne: "?tok \<noteq> []" by (rule replace_first_nonempty [OF ns assms(1)])
  have a: "auth env (Some h) now db = verify_and_find env ?tok now db"
    using ne by (intro auth_verify_and_find) simp_all
  have 1: "auth env (Some h) now db \<noteq> Inl (Response 401 (error_body ''No token, authorization denied''))"
    unfolding a using verify_and_find_cases [of env ?tok now db] by blast
  have 2: "?tok = tok"
    if p: "(\<not> (\<exists>x y. h = x @ ''Bearer '' @ y) \<and> tok = h)
                \<or> (\<exists>a b. h = a @ ''Bearer '' @ b \<and> \<not> (\<exists>x y. a @ ''Bearer'' = x @ ''Bearer '' @ y)
                         \<and> tok = a @ b)" for tok
    using p
  proof (elim disjE conjE exE)
    assume "\<not> (\<exists>x y. h = x @ ''Bearer '' @ y)" "tok = h"
    then show ?thesis using replace_first_absent [of "''Bearer ''" h "[]"]
      unfolding str_includes_iff by simp
  next
    fix a b
    assume q: "h = a @ ''Bearer '' @ b" "\<not> (\<exists>x y. a @ ''Bearer'' = x @ ''Bearer '' @ y)" "tok = a @ b"
    have "replace_first ''Bearer '' [] (a @ ''Bearer '' @ b) = a @ [] @ b"
      using q(2) by (intro replace_first_first) simp_all
    then show ?thesis using q(1,3) by simp
  qed
  show ?thesis
  proof (intro conjI allI impI)
    show "auth env (Some h) now db \<noteq> Inl (Response 401 (error_body ''No token, authorization denied''))"
      by (rule 1)
  next
    fix tok
    assume p: "(\<not> (\<exists>x y. h = x @ ''Bearer '' @ y) \<and> tok = h)
                \<or> (\<exists>a b. h = a @ ''Bearer '' @ b \<and> \<not> (\<exists>x y. a @ ''Bearer'' = x @ ''Bearer '' @ y)
                         \<and> tok = a @ b)"
    have e: "auth env (Some h) now db = verify_and_find env tok now db"
      using a 2 [OF p] by simp
    show "auth env (Some h) now db = verify_and_find env tok now db" by (rule e)
    show "auth env (Some h) now db = Inl (Response 401 (error_body ''Token is not valid''))"
      if "jwt_verify env tok now = None"
      unfolding e using that verify_and_find_cases [of env tok now db] by blast
    show "auth env (Some h) now db = Inl (Response 401 (error_body ''Token is not valid''))"
      if "jwt_verify env tok now = Some c
                       \<and> \<not> (\<exists>u \<in> set (users db). user_id u = c_id c \<and> tok \<in> set (tokens u))" for c
      unfolding e using that verify_and_find_cases [of env tok now db] by blast
    show "\<exists>u'. auth env (Some h) now db = Inr (u', tok) \<and> u' \<in> set (users db)
                        \<and> user_id u' = c_id c \<and> tok \<in> set (tokens u')"
      if "jwt_verify env tok now = Some c
                       \<and> u \<in> set (users db) \<and> user_id u = c_id c \<and> tok \<in> set (tokens u)" for c u
      unfolding e using that verify_and_find_cases [of env tok now db] by blast
  qed
qed


theorem auth_accepts_header_without_prefix_witness:
  "''jwt2'' \<noteq> [] \<and> \<not> (\<exists>t. ''jwt2'' = ''Bearer '' @ t) \<and> \<not> (\<exists>x y. ''jwt2'' = x @ ''Bearer '' @ y)
   \<and> ''jwBearer t2'' \<noteq> [] \<and> \<not> (\<exists>t. ''jwBearer t2'' = ''Bearer '' @ t)
   \<and> ''jwBearer t2'' = ''jw'' @ ''Bearer '' @ ''t2''
   \<and> \<not> (\<exists>x y. ''jw'' @ ''Bearer'' = x @ ''Bearer '' @ y)
   \<and> ''jwBearer tBearer 2'' = ''jw'' @ ''Bearer '' @ ''tBearer 2''
   \<and> jwt_verify sample_libs ''jwt2'' 5 = Some (stamp 2 ''bob@ex.io'' ''user'' 0)
   \<and> jwt_verify sample_libs ''jwtBearer 2'' 5 = None
   \<and> bob \<in> set (users sample_db) \<and> user_id bob = 2 \<and> ''jwt2'' \<in> set (tokens bob)
   \<and> (\<exists>u'. auth sample_libs (Some ''jwt2'') 5 sample_db = Inr (u', ''jwt2'') \<and> user_id u' = 2)
   \<and> (\<exists>u'. auth sample_libs (Some ''jwBearer t2'') 5 sample_db = Inr (u', ''jwt2'') \<and> user_id u' = 2)
   \<and> auth sample_libs (Some ''jwt2'') 5 sample_db = Inr (bob, ''jwt2'')
   \<and> auth sample_libs (Some ''jwBearer t2'') 5 sample_db = Inr (bob, ''jwt2'')
   \<and> auth sample_libs (Some ''jwBearer t2'') 5 sample_db = verify_and_find sample_libs ''jwt2'' 5 sample_db
   \<and> auth sample_libs (Some ''jwBearer tBearer 2'') 5 sample_db
       = Inl (Response 401 (error_body ''Token is not valid''))"
proof -
  have a1: "''jwt2'' \<noteq> []" by simp
  have a2: "\<not> (\<exists>t. ''jwt2'' = ''Bearer '' @ t)" by simp
  have "\<not> str_includes ''Bearer '' ''jwt2''" by code_simp
  then have a3: "\<not> (\<exists>x y. ''jwt2'' = x @ ''Bearer '' @ y)" unfolding str_includes_iff .
  have b1: "''jwBearer t2'' \<noteq> []" by simp
  have b2: "\<not> (\<exists>t. ''jwBearer t2'' = ''Bearer '' @ t)" by simp
  have b3: "''jwBearer t2'' = ''jw'' @ ''Bearer '' @ ''t2''" by simp
  have "\<not> str_includes ''Bearer '' (''jw'' @ ''Bearer'')" by code_simp
  then have b4: "\<not> (\<exists>x y. ''jw'' @ ''Bearer'' = x @ ''Bearer '' @ y)" unfolding str_includes_iff .
  have c1: "''jwBearer tBearer 2'' \<noteq> []" by simp
  have c2: "\<not> (\<exists>t. ''jwBearer tBearer 2'' = ''Bearer '' @ t)" by simp
  have c3: "''jwBearer tBearer 2'' = ''jw'' @ ''Bearer '' @ ''tBearer 2''" by simp
  have e1: "''jw'' @ ''t2'' = ''jwt2''" by simp
  have e2: "''jw'' @ ''tBearer 2'' = ''jwtBearer 2''" by simp
  have v1: "jwt_verify sample_libs ''jwt2'' 5 = Some (stamp 2 ''bob@ex.io'' ''user'' 0)" by code_simp
  have v2: "jwt_verify sample_libs ''jwtBearer 2'' 5 = None" by code_simp
  have u1: "bob \<in> set (users sample_db)" by code_simp
  have u2: "user_id bob = c_id (stamp 2 ''bob@ex.io'' ''user'' 0)" by code_simp
  have u3: "''jwt2'' \<in> set (tokens bob)" by code_simp
  have u4: "user_id bob = 2" by code_simp
  have i: "c_id (stamp 2 ''bob@ex.io'' ''user'' 0) = 2" by code_simp
  have r1: "auth sample_libs (Some ''jwt2'') 5 sample_db = Inr (bob, ''jwt2'')" by code_simp
  have r2: "auth sample_libs (Some ''jwBearer t2'') 5 sample_db = Inr (bob, ''jwt2'')" by code_simp
  note t1 = auth_accepts_header_without_prefix [OF a1 a2, of sample_libs 5 sample_db]
  note t2 = auth_accepts_header_without_prefix [OF b1 b2, of sample_libs 5 sample_db]
  note t3 = auth_accepts_header_without_prefix [OF c1 c2, of sample_libs 5 sample_db]
  from t1 a3 v1 u1 u2 u3
  have "\<exists>u'. auth sample_libs (Some ''jwt2'') 5 sample_db = Inr (u', ''jwt2'')
          \<and> user_id u' = c_id (stamp 2 ''bob@ex.io'' ''user'' 0)"
    by blast
  then have 1: "\<exists>u'. auth sample_libs (Some ''jwt2'') 5 sample_db = Inr (u', ''jwt2'') \<and> user_id u' = 2"
    unfolding i .
  have p2: "(\<not> (\<exists>x y. ''jwBearer t2'' = x @ ''Bearer '' @ y) \<and> ''jwt2'' = ''jwBearer t2'')
          \<or> (\<exists>a b. ''jwBearer t2'' = a @ ''Bearer '' @ b
                  \<and> \<not> (\<exists>x y. a @ ''Bearer'' = x @ ''Bearer '' @ y) \<and> ''jwt2'' = a @ b)"
    apply (rule disjI2)
    apply (rule exI [of _ "''jw''"])
    apply (rule exI [of _ "''t2''"])
    apply (intro conjI)
      apply (rule b3)
     apply (rule b4)
    apply (rule e1 [symmetric])
    done
  from t2 have q2: "\<forall>tok. (\<not> (\<exists>x y. ''jwBearer t2'' = x @ ''Bearer '' @ y) \<and> tok = ''jwBearer t2'')
                \<or> (\<exists>a b. ''jwBearer t2'' = a @ ''Bearer '' @ b \<and> \<not> (\<exists>x y. a @ ''Bearer'' = x @ ''Bearer '' @ y)
                         \<and> tok = a @ b)
            \<longrightarrow> auth sample_libs (Some ''jwBearer t2'') 5 sample_db = verify_and_find sample_libs tok 5 sample_db
              \<and> (jwt_verify sample_libs tok 5 = None \<longrightarrow>
                   auth sample_libs (Some ''jwBearer t2'') 5 sample_db = Inl (Response 401 (error_body ''Token is not valid'')))
              \<and> (\<forall>c. jwt_verify sample_libs tok 5 = Some c
                       \<and> \<not> (\<exists>u \<in> set (users sample_db). user_id u = c_id c \<and> tok \<in> set (tokens u)) \<longrightarrow>
                   auth sample_libs (Some ''jwBearer t2'') 5 sample_db = Inl (Response 401 (error_body ''Token is not valid'')))
              \<and> (\<forall>c u. jwt_verify sample_libs tok 5 = Some c
                       \<and> u \<in> set (users sample_db) \<and> user_id u = c_id c \<and> tok \<in> set (tokens u) \<longrightarrow>
                   (\<exists>u'. auth sample_libs (Some ''jwBearer t2'') 5 sample_db = Inr (u', tok) \<and> u' \<in> set (users sample_db)
                        \<and> user_id u' = c_id c \<and> tok \<in> set (tokens u')))"
    by (rule conjunct2)
  from spec [OF q2, of "''jwt2''"] p2 v1 u1 u2 u3
  have "\<exists>u'. auth sample_libs (Some ''jwBearer t2'') 5 sample_db = Inr (u', ''jwt2'')
          \<and> user_id u' = c_id (stamp 2 ''bob@ex.io'' ''user'' 0)"
    by blast
  then have 2: "\<exists>u'. auth sample_libs (Some ''jwBearer t2'') 5 sample_db = Inr (u', ''jwt2'') \<and> user_id u' = 2"
    unfolding i .
  from spec [OF q2, of "''jwt2''"] p2
  have 3: "auth sample_libs (Some ''jwBearer t2'') 5 sample_db = verify_and_find sample_libs ''jwt2'' 5 sample_db"
    by blast
  have p3: "(\<not> (\<exists>x y. ''jwBearer tBearer 2'' = x @ ''Bearer '' @ y) \<and> ''jwtBearer 2'' = ''jwBearer tBearer 2'')
          \<or> (\<exists>a b. ''jwBearer tBearer 2'' = a @ ''Bearer '' @ b
                  \<and> \<not> (\<exists>x y. a @ ''Bearer'' = x @ ''Bearer '' @ y) \<and> ''jwtBearer 2'' = a @ b)"
    apply (rule disjI2)
    apply (rule exI [of _ "''jw''"])
    apply (rule exI [of _ "''tBearer 2''"])
    apply (intro conjI)
      apply (rule c3)
     apply (rule b4)
    apply (rule e2 [symmetric])
    done
  from t3 have "\<forall>tok. (\<not> (\<exists>x y. ''jwBearer tBearer 2'' = x @ ''Bearer '' @ y) \<and> tok = ''jwBearer tBearer 2'')
                \<or> (\<exists>a b. ''jwBearer tBearer 2'' = a @ ''Bearer '' @ b \<and> \<not> (\<exists>x y. a @ ''Bearer'' = x @ ''Bearer '' @ y)
                         \<and> tok = a @ b)
            \<longrightarrow> (jwt_verify sample_libs tok 5 = None \<longrightarrow>
                   auth sample_libs (Some ''jwBearer tBearer 2'') 5 sample_db = Inl (Response 401 (error_body ''Token is not valid'')))"
    by blast
  from spec [OF this, of "''jwtBearer 2''"] p3 v2
  have 4: "auth sample_libs (Some ''jwBearer tBearer 2'') 5 sample_db
       = Inl (Response 401 (error_body ''Token is not valid''))"
    by blast
  from a1 a2 a3 b1 b2 b3 b4 c3 v1 v2 u1 u4 u3 1 2 r1 r2 3 4 show ?thesis by blast
qed

section \<open>A token after logout\<close>

lemma reissue_same_token:
  "now div 1000 = now' div 1000 \<Longrightarrow> jwt_sign env i e r now = jwt_sign env i e r now'"
  unfolding jwt_sign_def stamp_def by simp

lemma save_new_user_tokens:
  assumes "save_new_user env salt u us = Inr (u1, us1)"
  shows "tokens u1 = tokens u \<and> user_id u1 = user_id u \<and> us1 = us @ [u1]
       \<and> (\<forall>v \<in> set us. user_id v \<noteq> user_id u)"
  using assms unfolding save_new_user_def pre_save_def Let_def
  by (auto split: option.splits if_splits simp: list_ex_iff)

lemma response_token_simps:
  "response_token (Response s (JObj [(a, x), (b, y), (''token'', JStr k)])) =
     (if a = ''token'' then Some x else if b = ''token'' then Some y else Some (JStr k))"
  "response_token (NextError e) = None"
  "response_token (Response s (error_body m)) = None"
  "response_token (bad_request env v) = None"
  unfolding response_token_def js_field_def error_body_def bad_request_def by simp_all

lemma post_register_tokens:
  assumes "post_register env body now oid salt db = (r, db')"
      and "w' \<in> set (users db')" and "k \<in> set (tokens w')"
  shows "(\<exists>w \<in> set (users db). user_id w = user_id w' \<and> k \<in> set (tokens w))
       \<or> response_token r = Some (JStr k)"
proof (cases "db' = db")
  case True
  with assms(2,3) show ?thesis by blast
next
  case False
  with assms(1) obtain nm em pw u1 us1 where
    s: "save_new_user env salt (new_user oid nm em pw now) (users db) = Inr (u1, us1)"
    and c: "(\<exists>err. generateAuthToken env True now u1 us1 = Inl err \<and> db' = db\<lparr>users := us1\<rparr>)
          \<or> (\<exists>tok u2 us2. generateAuthToken env True now u1 us1 = Inr (tok, u2, us2)
                \<and> db' = db\<lparr>users := us2\<rparr>
                \<and> r = Response 201 (JObj [(''message'', JStr ''User registered successfully''),
                                   (''user'', toJSON True u2), (''token'', JStr tok)]))"
    unfolding post_register_def
    by (auto split: sum.splits option.splits if_splits prod.splits)
  from save_new_user_tokens [OF s]
  have u1: "tokens u1 = []" "user_id u1 = oid" "us1 = users db @ [u1]"
    and others: "\<forall>v \<in> set (users db). user_id v \<noteq> oid"
    by (auto simp: new_user_def)
  from c show ?thesis
  proof (elim disjE exE conjE)
    fix err
    assume "db' = db\<lparr>users := us1\<rparr>"
    with assms(2,3) u1 show ?thesis by auto
  next
    fix tok u2 us2
    assume g: "generateAuthToken env True now u1 us1 = Inr (tok, u2, us2)"
      and d: "db' = db\<lparr>users := us2\<rparr>"
      and r: "r = Response 201 (JObj [(''message'', JStr ''User registered successfully''),
                                   (''user'', toJSON True u2), (''token'', JStr tok)])"
    from generateAuthToken_D [OF g]
    have u2: "u2 = u1\<lparr>tokens := tokens u1 @ [tok]\<rparr>"
      and us2: "us2 = map (\<lambda>v. if user_id v = user_id u1 then u2 else v) us1" by auto
    have "us2 = users db @ [u2]" unfolding us2 u1(3) u1(2) using others u1(2) by (rule replace_fresh_last)
    with assms(2) d have "w' \<in> set (users db) \<or> w' = u2" by auto
    then show ?thesis
    proof
      assume "w' \<in> set (users db)"
      with assms(3) show ?thesis by blast
    next
      assume "w' = u2"
      with assms(3) u2 u1(1) have "k = tok" by simp
      then show ?thesis unfolding r by (simp add: response_token_simps)
    qed
  qed
qed

lemma post_login_tokens:
  assumes "post_login env body now db = (r, db')"
      and "w' \<in> set (users db')" and "k \<in> set (tokens w')"
  shows "(\<exists>w \<in> set (users db). user_id w = user_id w' \<and> k \<in> set (tokens w))
       \<or> response_token r = Some (JStr k)"
proof (cases "db' = db")
  case True
  with assms(2,3) show ?thesis by blast
next
  case False
  with assms(1) obtain em u tok u2 us2 where
    f: "findOne_email em (users db) = Some u"
    and g: "generateAuthToken env True now u (users db) = Inr (tok, u2, us2)"
    and d: "db' = db\<lparr>users := us2\<rparr>"
    and r: "r = Response 200 (JObj [(''message'', JStr ''Login successful''),
                                   (''user'', toJSON True u2), (''token'', JStr tok)])"
    unfolding post_login_def
    by (auto split: sum.splits option.splits if_splits prod.splits)
  from f have u: "u \<in> set (users db)" unfolding findOne_email_def by (auto dest: find_Some_D)
  from generateAuthToken_D [OF g]
  have u2: "u2 = u\<lparr>tokens := tokens u @ [tok]\<rparr>"
    and us2: "us2 = map (\<lambda>v. if user_id v = user_id u then u2 else v) (users db)" by auto
  from assms(2) d us2 have "w' \<in> set (users db) \<or> w' = u2" by auto
  then show ?thesis
  proof
    assume "w' \<in> set (users db)"
    with assms(3) show ?thesis by blast
  next
    assume w: "w' = u2"
    with assms(3) u2 have "k \<in> set (tokens u) \<or> k = tok" by auto
    then show ?thesis
    proof
      assume "k \<in> set (tokens u)"
      moreover have "user_id u = user_id w'" using w u2 by simp
      ultimately show ?thesis using u by blast
    next
      assume "k = tok"
      then show ?thesis unfolding r by (simp add: response_token_simps)
    qed
  qed
qed

lemma post_logout_tokens:
  assumes "post_logout env header now db = (r, db')"
      and "w' \<in> set (users db')" and "k \<in> set (tokens w')"
  shows "\<exists>w \<in> set (users db). user_id w = user_id w' \<and> k \<in> set (tokens w)"
proof (cases "db' = db")
  case True
  with assms(2,3) show ?thesis by blast
next
  case False
  with assms(1) obtain u tok u1 us1 where
    a: "auth env header now db = Inr (u, tok)"
    and g: "save_user env False (u\<lparr>tokens := filter (\<lambda>t. t \<noteq> tok) (tokens u)\<rparr>) (users db) = Inr (u1, us1)"
    and d: "db' = db\<lparr>users := us1\<rparr>"
    unfolding post_logout_def
    by (auto split: sum.splits option.splits if_splits prod.splits)
  from auth_Inr_D [OF a] have u: "u \<in> set (users db)" by blast
  from save_user_D [OF g]
  have us1: "us1 = map (\<lambda>v. if user_id v = user_id u then u\<lparr>tokens := filter (\<lambda>t. t \<noteq> tok) (tokens u)\<rparr> else v) (users db)"
    by simp
  from assms(2) d us1
  have "w' \<in> set (users db) \<or> w' = u\<lparr>tokens := filter (\<lambda>t. t \<noteq> tok) (tokens u)\<rparr>" by auto
  then show ?thesis
  proof
    assume "w' \<in> set (users db)"
    with assms(3) show ?thesis by blast
  next
    assume w: "w' = u\<lparr>tokens := filter (\<lambda>t. t \<noteq> tok) (tokens u)\<rparr>"
    with assms(3) have "k \<in> set (tokens u)" "user_id u = user_id w'" by auto
    with u show ?thesis by blast
  qed
qed

lemma post_task_users: "post_task env now oid u body db = (r, db') \<Longrightarrow> users db' = users db"
  unfolding post_task_def by (auto split: sum.splits prod.splits)

lemma delete_task_users: "delete_task u tid db = (r, db') \<Longrightarrow> users db' = users db"
  unfolding delete_task_def findOneAndDelete_def Let_def by (auto split: option.splits prod.splits)

lemma handle_tokens:
  assumes "handle env req db = (r, db')"
      and "w' \<in> set (users db')" and "k \<in> set (tokens w')"
  shows "(\<exists>w \<in> set (users db). user_id w = user_id w' \<and> k \<in> set (tokens w))
       \<or> response_token r = Some (JStr k)"
proof (cases req)
  case (Register body now oid salt)
  with assms(1) have "post_register env body now oid salt db = (r, db')" by simp
  from post_register_tokens [OF this assms(2,3)] show ?thesis .
next
  case (Login body now)
  with assms(1) have "post_login env body now db = (r, db')" by simp
  from post_login_tokens [OF this assms(2,3)] show ?thesis .
next
  case (Me header now)
  with assms(1) get_me_db [of env header now db] have "db' = db" by simp
  with assms(2,3) show ?thesis by blast
next
  case (Logout header now)
  with assms(1) have "post_logout env header now db = (r, db')" by simp
  from post_logout_tokens [OF this assms(2,3)] show ?thesis by blast
next
  case (ListTasks header now q)
  with assms(1) guarded_cases [of env header now db "\<lambda>u. get_tasks u q db" r db']
    get_tasks_db have "db' = db" by (metis handle.simps(5) snd_conv)
  with assms(2,3) show ?thesis by blast
next
  case (GetTask header now tid)
  with assms(1) guarded_cases [of env header now db "\<lambda>u. get_task u tid db" r db']
    get_task_db have "db' = db" by (metis handle.simps(6) snd_conv)
  with assms(2,3) show ?thesis by blast
next
  case (CreateTask header now oid body)
  with assms(1) guarded_cases [of env header now db "\<lambda>u. post_task env now oid u body db" r db']
  have "db' = db \<or> (\<exists>u. post_task env now oid u body db = (r, db'))" by simp
  with post_task_users have "users db' = users db" by blast
  with assms(2,3) show ?thesis by auto
next
  case (UpdateTask header now tid body)
  with assms(1) guarded_cases [of env header now db "\<lambda>u. put_task env now u tid body db" r db']
  have "db' = db \<or> (\<exists>u. put_task env now u tid body db = (r, db'))" by simp
  with put_task_db have "users db' = users db" by blast
  with assms(2,3) show ?thesis by auto
next
  case (DeleteTask header now tid)
  with assms(1) guarded_cases [of env header now db "\<lambda>u. delete_task u tid db" r db']
  have "db' = db \<or> (\<exists>u. delete_task u tid db = (r, db'))" by simp
  with delete_task_users have "users db' = users db" by blast
  with assms(2,3) show ?thesis by auto
qed

lemma run_never_reissued:
  "never_reissued env tok reqs db \<Longrightarrow>
   \<not> (\<exists>w \<in> set (users db). user_id w = i \<and> tok \<in> set (tokens w)) \<Longrightarrow>
   \<not> (\<exists>w \<in> set (users (run env reqs db)). user_id w = i \<and> tok \<in> set (tokens w))"
proof (induction reqs arbitrary: db)
  case Nil
  then show ?case by simp
next
  case (Cons r rs)
  obtain x db' where h: "handle env r db = (x, db')" by (cases "handle env r db")
  from Cons.prems(1) h have n: "response_token x \<noteq> Some (JStr tok)" "never_reissued env tok rs db'"
    by simp_all
  have "\<not> (\<exists>w \<in> set (users db'). user_id w = i \<and> tok \<in> set (tokens w))"
  proof
    assume "\<exists>w \<in> set (users db'). user_id w = i \<and> tok \<in> set (tokens w)"
    then obtain w' where "w' \<in> set (users db')" "user_id w' = i" "tok \<in> set (tokens w')" by blast
    with handle_tokens [OF h, of w' tok] n(1) Cons.prems(2) show False by auto
  qed
  from Cons.IH [OF n(2) this] h show ?case by simp
qed

text \<open>
  Claim C1, amended. When \<^verbatim>\<open>generateAuthToken\<close> returns a token for a user (and the
  token library decodes what it has just signed), the middleware, given that token at
  the time of issue, resolves it to a user with that user's id. Once the logout route
  has succeeded for a request carrying the token, in whatever state it was called, the
  middleware answers 401 to every header carrying the same token, at every time,
  expired or not, in every state the server reaches by handling further requests, as
  long as no response to one of them carries that same token string again.
\<close>

theorem issued_token_valid_until_logout:
  assumes issue: "generateAuthToken env sel now u (users db) = Inr (tok, u1, us1)"
      and codec: "jwt_decode env (jwt_encode env (stamp (user_id u) (email u) (role u) now))
                    = Some (stamp (user_id u) (email u) (role u) now)"
      and logout: "post_logout env (Some h) t db2 = (Response 200 body, db3)"
      and sent: "replace_first ''Bearer '' [] h = tok"
      and later: "never_reissued env tok reqs db3"
      and same: "replace_first ''Bearer '' [] h' = tok"
  shows "(\<exists>u'. auth env (Some (''Bearer '' @ tok)) now (db\<lparr>users := us1\<rparr>) = Inr (u', tok)
               \<and> user_id u' = user_id u)
       \<and> auth env (Some h') t' (run env reqs db3) = Inl (Response 401 (error_body ''Token is not valid''))"
proof
  note g = generateAuthToken_D [OF issue]
  from g have tok: "tok = jwt_encode env (stamp (user_id u) (email u) (role u) now)"
    by (simp add: jwt_sign_def)
  from g have ne: "tok \<noteq> []" by blast
  have v: "jwt_verify env tok now = Some (stamp (user_id u) (email u) (role u) now)"
    unfolding jwt_verify_def tok codec by (simp add: stamp_def)
  from g obtain w where w: "w \<in> set (users db)" "user_id w = user_id u" by blast
  have "u1 \<in> set us1" using g w by force
  moreover have "user_id u1 = user_id u \<and> tok \<in> set (tokens u1)" using g by simp
  ultimately have "\<exists>y. find (\<lambda>x. user_id x = user_id u \<and> tok \<in> set (tokens x)) us1 = Some y
      \<and> (user_id y = user_id u \<and> tok \<in> set (tokens y))"
    by (intro find_ex [of u1]) simp_all
  then obtain y where
    "find (\<lambda>x. user_id x = user_id u \<and> tok \<in> set (tokens x)) us1 = Some y" "user_id y = user_id u"
    by auto
  then show "\<exists>u'. auth env (Some (''Bearer '' @ tok)) now (db\<lparr>users := us1\<rparr>) = Inr (u', tok)
               \<and> user_id u' = user_id u"
    unfolding auth_Bearer [OF ne] v by (simp add: stamp_def)
next
  from logout obtain a where a: "auth env (Some h) t db2 = Inr a"
    unfolding post_logout_def by (auto split: sum.splits dest: auth_Inl_D)
  obtain v tk where a': "a = (v, tk)" by (cases a)
  from auth_Inr_D [OF a [unfolded a']] sent
  obtain d where d: "tk = tok" "tok \<noteq> []" "jwt_decode env tok = Some d" "user_id v = c_id d"
    by auto
  let ?v' = "v\<lparr>tokens := filter (\<lambda>x. x \<noteq> tok) (tokens v)\<rparr>"
  from logout have db3: "users db3 = map (\<lambda>w. if user_id w = user_id v then ?v' else w) (users db2)"
    unfolding post_logout_def a a' d(1) save_user_def pre_save_def Let_def
    by (auto split: sum.splits option.splits if_splits)
  have "\<not> (\<exists>w \<in> set (users db3). user_id w = c_id d \<and> tok \<in> set (tokens w))"
    unfolding db3 using d(4) by auto
  from run_never_reissued [OF later this]
  have none: "find (\<lambda>x. user_id x = c_id d \<and> tok \<in> set (tokens x)) (users (run env reqs db3)) = None"
    unfolding find_None_iff by blast
  show "auth env (Some h') t' (run env reqs db3) = Inl (Response 401 (error_body ''Token is not valid''))"
    unfolding auth_token [OF same d(2)] jwt_verify_def d(3) using none by simp
qed


theorem issued_token_valid_until_logout_witness:
  "generateAuthToken sample_libs True 100 ann (users sample_db)
     = Inr (''jwt1'', ann\<lparr>tokens := [''jwt1'']\<rparr>, [ann\<lparr>tokens := [''jwt1'']\<rparr>, bob])
   \<and> auth sample_libs (Some ''Bearer jwt1'') 100 (sample_db\<lparr>users := [ann\<lparr>tokens := [''jwt1'']\<rparr>, bob]\<rparr>)
     = Inr (ann\<lparr>tokens := [''jwt1'']\<rparr>, ''jwt1'')
   \<and> post_logout sample_libs (Some ''Bearer jwt1'') 200 (sample_db\<lparr>users := [ann\<lparr>tokens := [''jwt1'']\<rparr>, bob]\<rparr>)
     = (Response 200 (JObj [(''message'', JStr ''Logged out successfully'')]), sample_db)
   \<and> never_reissued sample_libs ''jwt1''
        [Login (JObj [(''email'', JStr ''ann@ex.io''), (''password'', JStr ''secret1'')]) 1500,
         Me (Some ''Bearer jwt2'') 1600, Logout (Some ''Bearer jwt2'') 1700]
        sample_db
   \<and> run sample_libs
        [Login (JObj [(''email'', JStr ''ann@ex.io''), (''password'', JStr ''secret1'')]) 1500,
         Me (Some ''Bearer jwt2'') 1600, Logout (Some ''Bearer jwt2'') 1700]
        sample_db
     = sample_db\<lparr>users := [ann\<lparr>tokens := [''jwt1+'']\<rparr>, bob\<lparr>tokens := []\<rparr>]\<rparr>
   \<and> jwt_verify sample_libs ''jwt1'' 2000 = Some (stamp 1 ''ann@ex.io'' ''user'' 0)
   \<and> auth sample_libs (Some ''Bearer jwt1'') 2000
        (sample_db\<lparr>users := [ann\<lparr>tokens := [''jwt1+'']\<rparr>, bob\<lparr>tokens := []\<rparr>]\<rparr>)
     = Inl (Response 401 (error_body ''Token is not valid''))"
proof -
  let ?reqs = "[Login (JObj [(''email'', JStr ''ann@ex.io''), (''password'', JStr ''secret1'')]) 1500,
         Me (Some ''Bearer jwt2'') 1600, Logout (Some ''Bearer jwt2'') 1700]"
  have i: "generateAuthToken sample_libs True 100 ann (users sample_db)
     = Inr (''jwt1'', ann\<lparr>tokens := [''jwt1'']\<rparr>, [ann\<lparr>tokens := [''jwt1'']\<rparr>, bob])"
    by code_simp
  have c: "jwt_decode sample_libs (jwt_encode sample_libs (stamp (user_id ann) (email ann) (role ann) 100))
             = Some (stamp (user_id ann) (email ann) (role ann) 100)"
    by code_simp
  have l: "post_logout sample_libs (Some ''Bearer jwt1'') 200 (sample_db\<lparr>users := [ann\<lparr>tokens := [''jwt1'']\<rparr>, bob]\<rparr>)
     = (Response 200 (JObj [(''message'', JStr ''Logged out successfully'')]), sample_db)"
    by code_simp
  have s: "replace_first ''Bearer '' [] ''Bearer jwt1'' = ''jwt1''" by code_simp
  have n: "never_reissued sample_libs ''jwt1'' ?reqs sample_db" by code_simp
  have r: "run sample_libs ?reqs sample_db
     = sample_db\<lparr>users := [ann\<lparr>tokens := [''jwt1+'']\<rparr>, bob\<lparr>tokens := []\<rparr>]\<rparr>" by code_simp
  have a: "auth sample_libs (Some ''Bearer jwt1'') 100 (sample_db\<lparr>users := [ann\<lparr>tokens := [''jwt1'']\<rparr>, bob]\<rparr>)
     = Inr (ann\<lparr>tokens := [''jwt1'']\<rparr>, ''jwt1'')" by code_simp
  have v: "jwt_verify sample_libs ''jwt1'' 2000 = Some (stamp 1 ''ann@ex.io'' ''user'' 0)" by code_simp
  from issued_token_valid_until_logout [OF i c l s n s, where t' = 2000]
  have "auth sample_libs (Some ''Bearer jwt1'') 2000
        (sample_db\<lparr>users := [ann\<lparr>tokens := [''jwt1+'']\<rparr>, bob\<lparr>tokens := []\<rparr>]\<rparr>)
     = Inl (Response 401 (error_body ''Token is not valid''))" unfolding r by simp
  with i l a n r v show ?thesis by blast
qed

text \<open>
  Claim C1 as stated does not hold: the token is a function of the user's id, email and
  role and of the second of issue (lemma \<open>reissue_same_token\<close>), so a login of the same
  user in the second of the first issue returns the very string that was logged out,
  and lists it again. Here Ann logs in at 100 ms, logs out at 200 ms (a check at 300 ms
  is answered 401) and logs in again at 900 ms: the check at 950 ms that presents the
  token of the first login is accepted.
\<close>

theorem logged_out_token_reissued_counterexample:
  "generateAuthToken sample_libs True 100 ann (users sample_db)
     = Inr (''jwt1'', ann\<lparr>tokens := [''jwt1'']\<rparr>, [ann\<lparr>tokens := [''jwt1'']\<rparr>, bob])
   \<and> post_login sample_libs (JObj [(''email'', JStr ''ann@ex.io''), (''password'', JStr ''secret1'')]) 100 sample_db
     = (Response 200
          (JObj [(''message'', JStr ''Login successful''),
                 (''user'', toJSON True (ann\<lparr>tokens := [''jwt1'']\<rparr>)),
                 (''token'', JStr ''jwt1'')]),
        sample_db\<lparr>users := [ann\<lparr>tokens := [''jwt1'']\<rparr>, bob]\<rparr>)
   \<and> auth sample_libs (Some ''Bearer jwt1'') 150 (sample_db\<lparr>users := [ann\<lparr>tokens := [''jwt1'']\<rparr>, bob]\<rparr>)
     = Inr (ann\<lparr>tokens := [''jwt1'']\<rparr>, ''jwt1'')
   \<and> post_logout sample_libs (Some ''Bearer jwt1'') 200 (sample_db\<lparr>users := [ann\<lparr>tokens := [''jwt1'']\<rparr>, bob]\<rparr>)
     = (Response 200 (JObj [(''message'', JStr ''Logged out successfully'')]), sample_db)
   \<and> auth sample_libs (Some ''Bearer jwt1'') 300 sample_db
     = Inl (Response 401 (error_body ''Token is not valid''))
   \<and> post_login sample_libs (JObj [(''email'', JStr ''ann@ex.io''), (''password'', JStr ''secret1'')]) 900 sample_db
     = (Response 200
          (JObj [(''message'', JStr ''Login successful''),
                 (''user'', toJSON True (ann\<lparr>tokens := [''jwt1'']\<rparr>)),
                 (''token'', JStr ''jwt1'')]),
        sample_db\<lparr>users := [ann\<lparr>tokens := [''jwt1'']\<rparr>, bob]\<rparr>)
   \<and> auth sample_libs (Some ''Bearer jwt1'') 950 (sample_db\<lparr>users := [ann\<lparr>tokens := [''jwt1'']\<rparr>, bob]\<rparr>)
     = Inr (ann\<lparr>tokens := [''jwt1'']\<rparr>, ''jwt1'')
   \<and> auth sample_libs (Some ''Bearer jwt1'') 950
        (run sample_libs
           [Login (JObj [(''email'', JStr ''ann@ex.io''), (''password'', JStr ''secret1'')]) 100,
            Logout (Some ''Bearer jwt1'') 200,
            Login (JObj [(''email'', JStr ''ann@ex.io''), (''password'', JStr ''secret1'')]) 900]
           sample_db)
     = Inr (ann\<lparr>tokens := [''jwt1'']\<rparr>, ''jwt1'')"
  by code_simp

section \<open>Sorting and pages\<close>

text \<open>
  The bit length brackets a positive number between two powers of two; rounding a
  quotient to the nearest integer does not carry it over a multiple of a scale that is
  more than half the divisor. So the ceiling of the rounded quotient of two positive
  whole doubles below \<open>2 ^ 53\<close> is the ceiling of the exact quotient.
\<close>

lemma bitlen_upper: "0 \<le> n \<Longrightarrow> n < 2 ^ bitlen n"
proof (induction n rule: bitlen.induct)
  case (1 n)
  show ?case
  proof (cases "n \<le> 0")
    case True
    with 1 show ?thesis by (simp add: bitlen.simps)
  next
    case False
    then have "n div 2 < 2 ^ bitlen (n div 2)" using 1 by simp
    then have "n < 2 * 2 ^ bitlen (n div 2)" by linarith
    with False show ?thesis by (simp add: bitlen.simps [of n])
  qed
qed

lemma bitlen_lower: "0 < n \<Longrightarrow> 2 ^ bitlen n \<le> 2 * n"
proof (induction n rule: bitlen.induct)
  case (1 n)
  show ?case
  proof (cases "n div 2 \<le> 0")
    case True
    with 1 have "n = 1" by linarith
    then show ?thesis by (simp add: bitlen.simps [of 1] bitlen.simps [of 0])
  next
    case False
    with 1 have "2 ^ bitlen (n div 2) \<le> 2 * (n div 2)" by simp
    then have "2 * 2 ^ bitlen (n div 2) \<le> 2 * n" by linarith
    with 1 show ?thesis by (simp add: bitlen.simps [of n])
  qed
qed

lemma bitlen_pos: "0 < n \<Longrightarrow> 0 < bitlen n"
  by (simp add: bitlen.simps [of n])

lemma bitlen_le:
  assumes "0 < n" and "n < 2 ^ k"
  shows "bitlen n \<le> k"
proof (rule ccontr)
  assume "\<not> bitlen n \<le> k"
  then have "Suc k \<le> bitlen n" by simp
  then have "(2::int) ^ Suc k \<le> 2 ^ bitlen n" by (rule power_increasing) simp
  with bitlen_lower [OF assms(1)] assms(2) show False by simp
qed

lemma round_div_le:
  assumes "0 < d" and "n \<le> N * d"
  shows "round_div n d \<le> N"
proof -
  define q r where "q = n div d" and "r = n mod d"
  have e: "n = q * d + r" unfolding q_def r_def by simp
  have r: "0 \<le> r" "r < d" unfolding r_def using assms(1) by simp_all
  have "q \<le> N"
  proof (rule ccontr)
    assume "\<not> q \<le> N"
    then have "N + 1 \<le> q" by simp
    then have "(N + 1) * d \<le> q * d" using assms(1) by (intro mult_right_mono) simp_all
    with e r assms(2) show False by (simp add: algebra_simps)
  qed
  show ?thesis
  proof (cases "q = N")
    case True
    with e assms(2) r have "r = 0" by simp
    with assms(1) True show ?thesis unfolding round_div_def Let_def q_def [symmetric] r_def [symmetric]
      by simp
  next
    case False
    with \<open>q \<le> N\<close> have "q + 1 \<le> N" by simp
    then show ?thesis unfolding round_div_def Let_def q_def [symmetric] r_def [symmetric]
      by simp
  qed
qed

lemma round_div_ge:
  assumes "0 < d" and "d < 2 * P" and "N * d + P \<le> n"
  shows "N + 1 \<le> round_div n d"
proof -
  define q r where "q = n div d" and "r = n mod d"
  have e: "n = q * d + r" unfolding q_def r_def by simp
  have r: "0 \<le> r" "r < d" unfolding r_def using assms(1) by simp_all
  have "N \<le> q"
  proof (rule ccontr)
    assume "\<not> N \<le> q"
    then have "q + 1 \<le> N" by simp
    then have "(q + 1) * d \<le> N * d" using assms(1) by (intro mult_right_mono) simp_all
    with e r assms(2,3) show False by (simp add: algebra_simps)
  qed
  show ?thesis
  proof (cases "q = N")
    case True
    with e assms(3) have "P \<le> r" by simp
    with assms(2) have "d < 2 * r" by simp
    with True show ?thesis unfolding round_div_def Let_def q_def [symmetric] r_def [symmetric]
      by simp
  next
    case False
    with \<open>N \<le> q\<close> have "N + 1 \<le> q" by simp
    then show ?thesis unfolding round_div_def Let_def q_def [symmetric] r_def [symmetric]
      by simp
  qed
qed

lemma ceil_bounds:
  assumes "0 < (b::int)"
  shows "(- ((- a) div b) - 1) * b < a \<and> a \<le> - ((- a) div b) * b"
proof -
  define c r where "c = - ((- a) div b)" and "r = (- a) mod b"
  have e: "- a = (- c) * b + r" unfolding c_def r_def by simp
  have r: "0 \<le> r" "r < b" unfolding r_def using assms by simp_all
  from e r show ?thesis unfolding c_def [symmetric] by (simp add: algebra_simps)
qed

lemma ceil_unique:
  assumes "0 < (P::int)" and "(c - 1) * P < m" and "m \<le> c * P"
  shows "- ((- m) div P) = c"
proof -
  define c' where "c' = - ((- m) div P)"
  from ceil_bounds [OF assms(1), of m] have b: "(c' - 1) * P < m" "m \<le> c' * P"
    unfolding c'_def by simp_all
  have "c' \<le> c"
  proof (rule ccontr)
    assume "\<not> c' \<le> c"
    then have "c \<le> c' - 1" by simp
    then have "c * P \<le> (c' - 1) * P" using assms(1) by (intro mult_right_mono) simp_all
    with b(1) assms(3) show False by simp
  qed
  moreover have "c \<le> c'"
  proof (rule ccontr)
    assume "\<not> c \<le> c'"
    then have "c' \<le> c - 1" by simp
    then have "c' * P \<le> (c - 1) * P" using assms(1) by (intro mult_right_mono) simp_all
    with b(2) assms(2) show False by simp
  qed
  ultimately show ?thesis unfolding c'_def by simp
qed

lemma round_div_ceiling:
  assumes "0 < b" and "0 < P" and "b < 2 * P"
  shows "- ((- round_div (a * P) b) div P) = - ((- a) div b)"
proof -
  define c where "c = - ((- a) div b)"
  from ceil_bounds [OF assms(1), of a] have b: "(c - 1) * b < a" "a \<le> c * b"
    unfolding c_def by simp_all
  from b(2) have "a * P \<le> (c * b) * P" using assms(2) by (intro mult_right_mono) simp_all
  then have "a * P \<le> (c * P) * b" by (simp add: algebra_simps)
  from round_div_le [OF assms(1) this] have u: "round_div (a * P) b \<le> c * P" .
  from b(1) have "(c - 1) * b + 1 \<le> a" by simp
  then have "((c - 1) * b + 1) * P \<le> a * P" using assms(2) by (intro mult_right_mono) simp_all
  then have "((c - 1) * P) * b + P \<le> a * P" by (simp add: algebra_simps)
  from round_div_ge [OF assms(1,3) this] have l: "(c - 1) * P < round_div (a * P) b" by simp
  from ceil_unique [OF assms(2) l u] show ?thesis unfolding c_def .
qed

lemma fl_div_ceiling:
  assumes "0 < a" and "a < 2 ^ 53" and "0 < b" and "b < 2 ^ 53"
  shows "scaled_ceiling (fl_div a b) = - ((- a) div b)"
proof -
  define la lb where "la = bitlen a" and "lb = bitlen b"
  have la: "0 < la" "la \<le> 53" unfolding la_def
    using bitlen_pos [OF assms(1)] bitlen_le [OF assms(1,2)] by simp_all
  have lb: "0 < lb" "lb \<le> 53" unfolding lb_def
    using bitlen_pos [OF assms(3)] bitlen_le [OF assms(3,4)] by simp_all
  define s1 where "s1 = 53 + lb - la"
  have s1: "0 < s1" unfolding s1_def using la lb by simp
  have k1: "max (int la - int lb - 53) (- 1074) = - int s1"
    unfolding s1_def using la lb by simp
  define T where "T = ((a * 2 ^ s1) div b \<ge> 2 ^ 53)"
  define s where "s = (if T then s1 - 1 else s1)"
  have n: "nat (int s1 - 1) = s1 - 1" "nat (1 - int s1) = 0" "1 - int s1 = - int (s1 - 1)"
    using s1 by simp_all
  have f: "fl_div a b = (round_div (a * 2 ^ s) b, - int s)"
    unfolding fl_div_def la_def [symmetric] lb_def [symmetric] k1 Let_def
    by (simp add: s_def T_def n)
  have big: "b * 2 ^ 52 \<le> a * 2 ^ s"
  proof (cases T)
    case True
    then have "2 ^ 53 \<le> (a * 2 ^ s1) div b" unfolding T_def .
    then have "2 ^ 53 * b \<le> ((a * 2 ^ s1) div b) * b"
      using assms(3) by (intro mult_right_mono) simp_all
    also have "\<dots> \<le> a * 2 ^ s1"
    proof -
      have "a * 2 ^ s1 = ((a * 2 ^ s1) div b) * b + (a * 2 ^ s1) mod b" by simp
      moreover have "0 \<le> (a * 2 ^ s1) mod b" using assms(3) by simp
      ultimately show ?thesis by linarith
    qed
    finally have "2 ^ 53 * b \<le> a * 2 ^ s1" .
    moreover have "(2::int) ^ s1 = 2 * 2 ^ (s1 - 1)" using s1 by (cases s1) simp_all
    ultimately have "b * 2 ^ 52 \<le> a * 2 ^ (s1 - 1)" by simp
    with True show ?thesis unfolding s_def by simp
  next
    case False
    have "b < 2 ^ lb" unfolding lb_def using bitlen_upper [of b] assms(3) by simp
    then have "b * 2 ^ 52 \<le> 2 ^ lb * 2 ^ 52" by (intro mult_right_mono) simp_all
    also have "\<dots> = (2::int) ^ (lb + 52)" by (simp add: power_add)
    finally have 1: "b * 2 ^ 52 \<le> 2 ^ (lb + 52)" .
    have "(2::int) ^ la \<le> 2 * a" unfolding la_def by (rule bitlen_lower [OF assms(1)])
    then have 2: "2 ^ la * 2 ^ s1 \<le> (2 * a) * 2 ^ s1" by (intro mult_right_mono) simp_all
    have "la + s1 = Suc (lb + 52)" unfolding s1_def using la lb by simp
    then have "(2::int) ^ la * 2 ^ s1 = 2 ^ Suc (lb + 52)" by (simp only: power_add [symmetric])
    then have e: "(2::int) ^ la * 2 ^ s1 = 2 * 2 ^ (lb + 52)" by (simp only: power_Suc)
    have "2 * 2 ^ (lb + 52) \<le> 2 * (a * 2 ^ s1)" using 2 unfolding e by (simp only: mult.assoc)
    then have "(2::int) ^ (lb + 52) \<le> a * 2 ^ s1" by linarith
    with 1 False show ?thesis unfolding s_def by simp
  qed
  have "a * 2 ^ s < 2 ^ 53 * 2 ^ s" using assms(2) by (intro mult_strict_right_mono) simp_all
  with big have "b * 2 ^ 52 < 2 ^ 53 * 2 ^ s" by (rule le_less_trans)
  then have small: "b < 2 * 2 ^ s" by simp
  have "scaled_ceiling (fl_div a b) = - ((- round_div (a * 2 ^ s) b) div 2 ^ s)"
    unfolding f scaled_ceiling_def by (cases "s = 0") simp_all
  also have "\<dots> = - ((- a) div b)"
    using assms(3) small by (intro round_div_ceiling) simp_all
  finally show ?thesis .
qed

lemma to_double_exact: "\<bar>n\<bar> < 2 ^ 53 \<Longrightarrow> to_double n = Num n"
  unfolding to_double_def Let_def by simp

lemma js_pred_exact: "1 \<le> p \<Longrightarrow> p < 2 ^ 53 \<Longrightarrow> js_pred (Num p) = Num (p - 1)"
  unfolding js_pred_def by (simp add: to_double_exact)

lemma js_mul_exact: "0 \<le> a * b \<Longrightarrow> a * b < 2 ^ 53 \<Longrightarrow> js_mul (Num a) (Num b) = Num (a * b)"
  unfolding js_mul_def by (simp add: to_double_exact)

lemma js_ceil_div_exact:
  assumes "0 \<le> n" and "n < 2 ^ 53" and "1 \<le> l" and "l < 2 ^ 53"
  shows "js_ceil_div n (Num l) = Some (- ((- n) div l))"
proof (cases "n = 0")
  case True
  with assms(3) show ?thesis unfolding js_ceil_div_def by (simp add: to_double_exact)
next
  case False
  with assms(1) have "0 < n" by simp
  from fl_div_ceiling [OF this assms(2) _ assms(4)] assms(3)
  have "scaled_ceiling (fl_div n l) = - ((- n) div l)" by simp
  with assms False show ?thesis unfolding js_ceil_div_def by (simp add: to_double_exact)
qed

lemma skip_docs_drop: "skip_docs n xs = drop (nat n) xs"
proof (induction xs arbitrary: n)
  case Nil
  then show ?case by simp
next
  case (Cons x xs)
  show ?case
  proof (cases "n \<le> 0")
    case True
    then show ?thesis by simp
  next
    case False
    then have "nat n = Suc (nat (n - 1))" by simp
    with False Cons [of "n - 1"] show ?thesis by simp
  qed
qed

lemma limit_docs_take: "limit_docs n xs = take (nat n) xs"
proof (induction xs arbitrary: n)
  case Nil
  then show ?case by simp
next
  case (Cons x xs)
  show ?case
  proof (cases "n \<le> 0")
    case True
    then show ?thesis by simp
  next
    case False
    then have "nat n = Suc (nat (n - 1))" by simp
    with False Cons [of "n - 1"] show ?thesis by simp
  qed
qed

lemma cursor_page:
  assumes "0 \<le> s" and "s < 2 ^ 63" and "1 \<le> l" and "l < 2 ^ 63"
  shows "cursor xs (Num s) (Num l) = Inr (take (nat l) (drop (nat s) xs))"
  using assms unfolding cursor_def safe_long_def driver_limit_def Let_def
  by (simp add: skip_docs_drop limit_docs_take)

lemma mset_insort_by: "mset (insort_by le x xs) = add_mset x (mset xs)"
  by (induction xs) auto

lemma mset_sort_by: "mset (sort_by le xs) = mset xs"
  unfolding sort_by_def by (induction xs) (auto simp: mset_insort_by)

lemma set_insort_by: "set (insort_by le x xs) = insert x (set xs)"
  by (induction xs) auto

lemma sorted_insort_by:
  assumes total: "\<And>a b. le a b \<or> le b a" and trans: "\<And>a b c. le a b \<Longrightarrow> le b c \<Longrightarrow> le a c"
  shows "sorted_wrt le xs \<Longrightarrow> sorted_wrt le (insort_by le x xs)"
proof (induction xs)
  case Nil
  then show ?case by simp
next
  case (Cons y ys)
  show ?case
  proof (cases "le x y")
    case True
    with Cons.prems trans show ?thesis by auto
  next
    case False
    with total have "le y x" by blast
    with Cons False show ?thesis by (auto simp: set_insort_by)
  qed
qed

lemma sorted_sort_by:
  assumes "\<And>a b. le a b \<or> le b a" and "\<And>a b c. le a b \<Longrightarrow> le b c \<Longrightarrow> le a c"
  shows "sorted_wrt le (sort_by le xs)"
  unfolding sort_by_def
  by (induction xs) (auto intro: sorted_insort_by [OF assms])

lemma schema_paths_ok:
  "list_all (\<lambda>f. sort_field_ok f \<and> f \<noteq> ''$natural'')
     [''_id'', ''title'', ''description'', ''status'', ''priority'', ''dueDate'', ''owner'',
      ''createdAt'', ''updatedAt'']"
  by code_simp

lemma sort_tasks_path:
  assumes "f \<in> set [''_id'', ''title'', ''description'', ''status'', ''priority'', ''dueDate'',
                      ''owner'', ''createdAt'', ''updatedAt'']"
  shows "\<exists>ys. sort_tasks f dir ts = Inr ys \<and> mset ys = mset ts"
proof -
  from assms schema_paths_ok have "sort_field_ok f \<and> f \<noteq> ''$natural''"
    unfolding list_all_iff by blast
  then show ?thesis unfolding sort_tasks_def by (simp add: mset_sort_by)
qed

lemma sort_tasks_newest_first:
  "\<exists>ys. sort_tasks ''createdAt'' (- 1) ts = Inr ys
        \<and> sorted_wrt (\<lambda>a b. createdAt b \<le> createdAt a) ys"
proof -
  have "sorted_wrt (\<lambda>a b. createdAt b \<le> createdAt a) (sort_by (\<lambda>a b. createdAt b \<le> createdAt a) ts)"
    by (rule sorted_sort_by) auto
  moreover have "sort_field_ok ''createdAt''" by code_simp
  ultimately show ?thesis unfolding sort_tasks_def by (simp add: field_value_def)
qed

lemma matches_explicit:
  "matches u q =
     (\<lambda>t. owner t = user_id u
          \<and> (\<forall>s. q_status q = Some s \<and> s \<noteq> [] \<longrightarrow> status t = s)
          \<and> (\<forall>s. q_priority q = Some s \<and> s \<noteq> [] \<longrightarrow> priority t = s))"
  by (rule ext) (auto simp: matches_def split: option.splits)

lemma list_tasks_valid:
  assumes "(case q_page q of None \<Rightarrow> Num 1 | Some s \<Rightarrow> parseInt s) = Num p" and "1 \<le> p"
      and "(case q_limit q of None \<Rightarrow> Num 10 | Some s \<Rightarrow> parseInt s) = Num l" and "1 \<le> l"
      and "p * l < 2 ^ 53"
      and "int (length (filter (matches u q) ts)) < 2 ^ 53"
      and "sort_tasks (case q_sortBy q of None \<Rightarrow> ''createdAt'' | Some f \<Rightarrow> f)
                (if (case q_sortOrder q of None \<Rightarrow> ''desc'' | Some d \<Rightarrow> d) = ''desc'' then - 1 else 1)
                (filter (matches u q) ts) = Inr ys"
  shows "list_tasks u q ts =
     Inr \<lparr>p_items = take (nat l) (drop (nat ((p - 1) * l)) ys),
          p_page = Some p, p_limit = Some l,
          p_total = int (length (filter (matches u q) ts)),
          p_pages = Some (- ((- int (length (filter (matches u q) ts))) div l))\<rparr>"
proof -
  have "p * 1 \<le> p * l" using assms(2,4) by (intro mult_left_mono) simp_all
  with assms(5) have p: "p < 2 ^ 53" by simp
  have "1 * l \<le> p * l" using assms(2,4) by (intro mult_right_mono) simp_all
  with assms(5) have l: "l < 2 ^ 53" by simp
  have s0: "0 \<le> (p - 1) * l" using assms(2,4) by simp
  have "(p - 1) * l \<le> p * l" using assms(2,4) by (intro mult_right_mono) simp_all
  with assms(5) have s1: "(p - 1) * l < 2 ^ 53" by simp
  have skip: "js_mul (js_pred (Num p)) (Num l) = Num ((p - 1) * l)"
    unfolding js_pred_exact [OF assms(2) p] by (rule js_mul_exact [OF s0 s1])
  have "(2::int) ^ 53 \<le> 2 ^ 63" by simp
  with s1 l have b: "(p - 1) * l < 2 ^ 63" "l < 2 ^ 63" by linarith+
  have c: "cursor ys (Num ((p - 1) * l)) (Num l) = Inr (take (nat l) (drop (nat ((p - 1) * l)) ys))"
    using s0 b assms(4) by (intro cursor_page) simp_all
  have pages: "js_ceil_div (int (length (filter (matches u q) ts))) (Num l)
             = Some (- ((- int (length (filter (matches u q) ts))) div l))"
    using assms(4,6) l by (intro js_ceil_div_exact) simp_all
  show ?thesis unfolding list_tasks_def Let_def assms(1,3) skip assms(7)
    by (simp add: c pages finite_part_def)
qed

lemma empty_sort_field_refused:
  "q_sortBy q = Some [] \<Longrightarrow> get_tasks u q db = (NextError QueryFailed, db)"
  unfolding get_tasks_def list_tasks_def Let_def sort_tasks_def sort_field_ok_def by simp

lemma parse_two_ten: "parseInt ''2'' = Num 2" "parseInt ''10'' = Num 10"
  by code_simp+

text \<open>
  Claim C7. For a user who owns exactly 15 tasks, the list with \<^verbatim>\<open>page=2\<close> and
  \<^verbatim>\<open>limit=10\<close> and no other parameter answers 200 with exactly 5 tasks, all of them
  tasks of the user, a total of 15 and 2 pages. In general, take a page \<open>p\<close> and a limit
  \<open>l\<close> that read as numbers of at least 1 with \<open>p * l\<close> below \<open>2 ^ 53\<close>, a sort field
  that is absent or a path of the schema, and fewer than \<open>2 ^ 53\<close> matching tasks, the
  matching tasks being those of the user that have the status and the priority asked
  for (a parameter that is absent or empty asks for nothing). Then the answer is 200;
  its items are the page, \<open>l\<close> tasks after the first \<open>(p - 1) * l\<close>, cut out of the
  matching tasks in sorted order, newest first when no sort is asked for; its total
  counts all matching tasks, whatever the page; its pages are the ceiling of the total
  divided by the limit, which the division and the rounding of doubles give exactly.
  Without the parameters the page is 1 and the limit 10.
\<close>

theorem list_tasks_pagination:
  "(length (filter (\<lambda>t. owner t = user_id u) (tasks db)) = 15 \<longrightarrow>
      (\<exists>xs. get_tasks u page_two db
          = (Response 200
               (JObj [(''tasks'', JArr (map task_json xs)),
                      (''pagination'',
                         JObj [(''page'', JNum 2), (''limit'', JNum 10),
                               (''total'', JNum 15), (''pages'', JNum 2)])]),
             db)
        \<and> length xs = 5 \<and> list_all (\<lambda>t. t \<in> set (tasks db) \<and> owner t = user_id u) xs))
   \<and> (\<forall>p l found.
         (case q_page q of None \<Rightarrow> Num 1 | Some s \<Rightarrow> parseInt s) = Num p \<and> 1 \<le> p
         \<and> (case q_limit q of None \<Rightarrow> Num 10 | Some s \<Rightarrow> parseInt s) = Num l \<and> 1 \<le> l
         \<and> p * l < 2 ^ 53
         \<and> (case q_sortBy q of None \<Rightarrow> ''createdAt'' | Some f \<Rightarrow> f)
             \<in> set [''_id'', ''title'', ''description'', ''status'', ''priority'', ''dueDate'',
                     ''owner'', ''createdAt'', ''updatedAt'']
         \<and> found = filter (\<lambda>t. owner t = user_id u
                              \<and> (\<forall>s. q_status q = Some s \<and> s \<noteq> [] \<longrightarrow> status t = s)
                              \<and> (\<forall>s. q_priority q = Some s \<and> s \<noteq> [] \<longrightarrow> priority t = s))
                     (tasks db)
         \<and> int (length found) < 2 ^ 53 \<longrightarrow>
        (\<exists>ys. mset ys = mset found
             \<and> (q_sortBy q = None \<and> q_sortOrder q = None \<longrightarrow>
                  sorted_wrt (\<lambda>a b. createdAt b \<le> createdAt a) ys)
             \<and> get_tasks u q db
                 = (Response 200
                      (JObj [(''tasks'', JArr (map task_json (take (nat l) (drop (nat ((p - 1) * l)) ys)))),
                             (''pagination'',
                                JObj [(''page'', JNum p), (''limit'', JNum l),
                                      (''total'', JNum (int (length found))),
                                      (''pages'', JNum \<lceil>real (length found) / real_of_int l\<rceil>)])]),
                    db)))
   \<and> (q_page q = None \<and> q_limit q = None
       \<and> (case q_sortBy q of None \<Rightarrow> ''createdAt'' | Some f \<Rightarrow> f)
             \<in> set [''_id'', ''title'', ''description'', ''status'', ''priority'', ''dueDate'',
                     ''owner'', ''createdAt'', ''updatedAt''] \<longrightarrow>
        (\<exists>r. list_tasks u q (tasks db) = Inr r \<and> p_page r = Some 1 \<and> p_limit r = Some 10
            \<and> length (p_items r) \<le> 10))"
proof (intro conjI impI allI)
  assume n: "length (filter (\<lambda>t. owner t = user_id u) (tasks db)) = 15"
  have "matches u page_two = (\<lambda>t. owner t = user_id u)"
    by (rule ext) (simp add: matches_def page_two_def)
  then have m: "filter (matches u page_two) (tasks db) = filter (\<lambda>t. owner t = user_id u) (tasks db)"
    by simp
  let ?found = "filter (\<lambda>t. owner t = user_id u) (tasks db)"
  from sort_tasks_newest_first [of ?found]
  obtain ys where ys: "sort_tasks ''createdAt'' (- 1) ?found = Inr ys" by blast
  have "\<exists>zs. sort_tasks ''createdAt'' (- 1) ?found = Inr zs \<and> mset zs = mset ?found"
    by (rule sort_tasks_path) simp
  with ys have ms: "mset ys = mset ?found" by simp
  then have len: "length ys = 15" using n by (metis size_mset)
  from ms have st: "set ys = set ?found" by (metis set_mset_mset)
  let ?xs = "take 10 (drop 10 ys)"
  have "list_tasks u page_two (tasks db) =
     Inr \<lparr>p_items = take (nat 10) (drop (nat ((2 - 1) * 10)) ys), p_page = Some 2, p_limit = Some 10,
          p_total = int (length (filter (matches u page_two) (tasks db))),
          p_pages = Some (- ((- int (length (filter (matches u page_two) (tasks db)))) div 10))\<rparr>"
    by (rule list_tasks_valid [where p = 2 and l = 10 and ys = ys])
       (simp_all add: page_two_def parse_two_ten m [unfolded page_two_def] n ys)
  then have "list_tasks u page_two (tasks db) =
     Inr \<lparr>p_items = ?xs, p_page = Some 2, p_limit = Some 10, p_total = 15, p_pages = Some 2\<rparr>"
    unfolding m n by simp
  then have "get_tasks u page_two db
          = (Response 200
               (JObj [(''tasks'', JArr (map task_json ?xs)),
                      (''pagination'',
                         JObj [(''page'', JNum 2), (''limit'', JNum 10),
                               (''total'', JNum 15), (''pages'', JNum 2)])]),
             db)"
    unfolding get_tasks_def by (simp add: js_number_def)
  moreover have "length ?xs = 5" using len by simp
  moreover have "list_all (\<lambda>t. t \<in> set (tasks db) \<and> owner t = user_id u) ?xs"
    unfolding list_all_iff
  proof
    fix t assume "t \<in> set ?xs"
    then have "t \<in> set ys" by (meson in_set_dropD in_set_takeD)
    with st show "t \<in> set (tasks db) \<and> owner t = user_id u" by simp
  qed
  ultimately show "\<exists>xs. get_tasks u page_two db
          = (Response 200
               (JObj [(''tasks'', JArr (map task_json xs)),
                      (''pagination'',
                         JObj [(''page'', JNum 2), (''limit'', JNum 10),
                               (''total'', JNum 15), (''pages'', JNum 2)])]),
             db)
        \<and> length xs = 5 \<and> list_all (\<lambda>t. t \<in> set (tasks db) \<and> owner t = user_id u) xs" by blast
next
  fix p l found
  assume a: "(case q_page q of None \<Rightarrow> Num 1 | Some s \<Rightarrow> parseInt s) = Num p \<and> 1 \<le> p
         \<and> (case q_limit q of None \<Rightarrow> Num 10 | Some s \<Rightarrow> parseInt s) = Num l \<and> 1 \<le> l
         \<and> p * l < 2 ^ 53
         \<and> (case q_sortBy q of None \<Rightarrow> ''createdAt'' | Some f \<Rightarrow> f)
             \<in> set [''_id'', ''title'', ''description'', ''status'', ''priority'', ''dueDate'',
                     ''owner'', ''createdAt'', ''updatedAt'']
         \<and> found = filter (\<lambda>t. owner t = user_id u
                              \<and> (\<forall>s. q_status q = Some s \<and> s \<noteq> [] \<longrightarrow> status t = s)
                              \<and> (\<forall>s. q_priority q = Some s \<and> s \<noteq> [] \<longrightarrow> priority t = s))
                     (tasks db)
         \<and> int (length found) < 2 ^ 53"
  then have f: "found = filter (matches u q) (tasks db)" unfolding matches_explicit by blast
  from a have a1: "(case q_page q of None \<Rightarrow> Num 1 | Some s \<Rightarrow> parseInt s) = Num p"
    and a2: "1 \<le> p"
    and a3: "(case q_limit q of None \<Rightarrow> Num 10 | Some s \<Rightarrow> parseInt s) = Num l"
    and a4: "1 \<le> l"
    and a5: "p * l < 2 ^ 53"
    and a6: "int (length found) < 2 ^ 53" by blast+
  let ?key = "case q_sortBy q of None \<Rightarrow> ''createdAt'' | Some f \<Rightarrow> f"
  let ?dir = "if (case q_sortOrder q of None \<Rightarrow> ''desc'' | Some d \<Rightarrow> d) = ''desc'' then - 1 else (1::int)"
  from a have "?key \<in> set [''_id'', ''title'', ''description'', ''status'', ''priority'', ''dueDate'',
                     ''owner'', ''createdAt'', ''updatedAt'']" by blast
  from sort_tasks_path [OF this, of ?dir found]
  obtain ys where ys: "sort_tasks ?key ?dir found = Inr ys" "mset ys = mset found" by blast
  have c: "- ((- int (length found)) div l) = \<lceil>real (length found) / real_of_int l\<rceil>"
    using ceiling_divide_eq_div [of "int (length found)" l, where ?'a = real] by simp
  have 2: "q_sortBy q = None \<and> q_sortOrder q = None \<longrightarrow>
             sorted_wrt (\<lambda>a b. createdAt b \<le> createdAt a) ys"
  proof
    assume d: "q_sortBy q = None \<and> q_sortOrder q = None"
    from sort_tasks_newest_first [of found]
    obtain zs where "sort_tasks ''createdAt'' (- 1) found = Inr zs"
      "sorted_wrt (\<lambda>a b. createdAt b \<le> createdAt a) zs" by blast
    with ys(1) d show "sorted_wrt (\<lambda>a b. createdAt b \<le> createdAt a) ys" by simp
  qed
  have "list_tasks u q (tasks db) =
     Inr \<lparr>p_items = take (nat l) (drop (nat ((p - 1) * l)) ys),
          p_page = Some p, p_limit = Some l,
          p_total = int (length (filter (matches u q) (tasks db))),
          p_pages = Some (- ((- int (length (filter (matches u q) (tasks db)))) div l))\<rparr>"
    by (rule list_tasks_valid [OF a1 a2 a3 a4 a5 a6 [unfolded f] ys(1) [unfolded f]])
  then have 3: "get_tasks u q db
                 = (Response 200
                      (JObj [(''tasks'', JArr (map task_json (take (nat l) (drop (nat ((p - 1) * l)) ys)))),
                             (''pagination'',
                                JObj [(''page'', JNum p), (''limit'', JNum l),
                                      (''total'', JNum (int (length found))),
                                      (''pages'', JNum \<lceil>real (length found) / real_of_int l\<rceil>)])]),
                    db)"
    unfolding get_tasks_def f [symmetric] c by (simp add: js_number_def)
  from ys(2) 2 3 show "\<exists>ys. mset ys = mset found
             \<and> (q_sortBy q = None \<and> q_sortOrder q = None \<longrightarrow>
                  sorted_wrt (\<lambda>a b. createdAt b \<le> createdAt a) ys)
             \<and> get_tasks u q db
                 = (Response 200
                      (JObj [(''tasks'', JArr (map task_json (take (nat l) (drop (nat ((p - 1) * l)) ys)))),
                             (''pagination'',
                                JObj [(''page'', JNum p), (''limit'', JNum l),
                                      (''total'', JNum (int (length found))),
                                      (''pages'', JNum \<lceil>real (length found) / real_of_int l\<rceil>)])]),
                    db)" by blast
next
  assume d: "q_page q = None \<and> q_limit q = None
       \<and> (case q_sortBy q of None \<Rightarrow> ''createdAt'' | Some f \<Rightarrow> f)
             \<in> set [''_id'', ''title'', ''description'', ''status'', ''priority'', ''dueDate'',
                     ''owner'', ''createdAt'', ''updatedAt'']"
  let ?key = "case q_sortBy q of None \<Rightarrow> ''createdAt'' | Some f \<Rightarrow> f"
  let ?dir = "if (case q_sortOrder q of None \<Rightarrow> ''desc'' | Some d \<Rightarrow> d) = ''desc'' then - 1 else (1::int)"
  from d have "?key \<in> set [''_id'', ''title'', ''description'', ''status'', ''priority'', ''dueDate'',
                     ''owner'', ''createdAt'', ''updatedAt'']" by blast
  from sort_tasks_path [OF this, of ?dir "filter (matches u q) (tasks db)"]
  obtain ys where ys: "sort_tasks ?key ?dir (filter (matches u q) (tasks db)) = Inr ys" by blast
  have pr: "js_pred (Num 1) = Num 0" by (simp add: js_pred_exact)
  have ml: "js_mul (Num 0) (Num 10) = Num 0" using js_mul_exact [of 0 10] by simp
  have cu: "cursor ys (Num 0) (Num 10) = Inr (take 10 ys)"
    using cursor_page [of 0 10 ys] by simp
  have "list_tasks u q (tasks db) =
     Inr \<lparr>p_items = take 10 ys, p_page = Some 1, p_limit = Some 10,
          p_total = int (length (filter (matches u q) (tasks db))),
          p_pages = js_ceil_div (int (length (filter (matches u q) (tasks db)))) (Num 10)\<rparr>"
    unfolding list_tasks_def Let_def using d ys by (simp add: pr ml cu finite_part_def)
  then show "\<exists>r. list_tasks u q (tasks db) = Inr r \<and> p_page r = Some 1 \<and> p_limit r = Some 10
            \<and> length (p_items r) \<le> 10" by simp
qed

theorem list_tasks_pagination_witness:
  "length (filter (\<lambda>t. owner t = user_id ann) (tasks busy_db)) = 15
   \<and> length (tasks busy_db) = 16
   \<and> get_tasks ann page_two busy_db
       = (Response 200
            (JObj [(''tasks'', JArr (map task_json (map numbered_task [5, 4, 3, 2, 1]))),
                   (''pagination'',
                      JObj [(''page'', JNum 2), (''limit'', JNum 10),
                            (''total'', JNum 15), (''pages'', JNum 2)])]),
          busy_db)
   \<and> (\<exists>xs. get_tasks ann page_two busy_db
          = (Response 200
               (JObj [(''tasks'', JArr (map task_json xs)),
                      (''pagination'',
                         JObj [(''page'', JNum 2), (''limit'', JNum 10),
                               (''total'', JNum 15), (''pages'', JNum 2)])]),
             busy_db)
        \<and> length xs = 5 \<and> list_all (\<lambda>t. t \<in> set (tasks busy_db) \<and> owner t = user_id ann) xs)
   \<and> (case q_page completed_only of None \<Rightarrow> Num 1 | Some s \<Rightarrow> parseInt s) = Num 1
   \<and> (case q_limit completed_only of None \<Rightarrow> Num 10 | Some s \<Rightarrow> parseInt s) = Num 10
   \<and> (1::int) * 10 < 2 ^ 53
   \<and> (case q_sortBy completed_only of None \<Rightarrow> ''createdAt'' | Some f \<Rightarrow> f)
        \<in> set [''_id'', ''title'', ''description'', ''status'', ''priority'', ''dueDate'',
                ''owner'', ''createdAt'', ''updatedAt'']
   \<and> int (length (filter (\<lambda>t. owner t = user_id ann \<and> status t = ''completed'') (tasks busy_db))) = 5
   \<and> (\<exists>ys. mset ys = mset (filter (\<lambda>t. owner t = user_id ann \<and> status t = ''completed'') (tasks busy_db))
          \<and> sorted_wrt (\<lambda>a b. createdAt b \<le> createdAt a) ys
          \<and> get_tasks ann completed_only busy_db
              = (Response 200
                   (JObj [(''tasks'', JArr (map task_json (take (nat 10) (drop (nat ((1 - 1) * 10)) ys)))),
                          (''pagination'',
                             JObj [(''page'', JNum 1), (''limit'', JNum 10),
                                   (''total'', JNum (int (length (filter (\<lambda>t. owner t = user_id ann \<and> status t = ''completed'') (tasks busy_db))))),
                                   (''pages'', JNum \<lceil>real (length (filter (\<lambda>t. owner t = user_id ann \<and> status t = ''completed'') (tasks busy_db))) / real_of_int 10\<rceil>)])]),
                 busy_db))
   \<and> get_tasks ann completed_only busy_db
       = (Response 200
            (JObj [(''tasks'', JArr (map task_json (map numbered_task [15, 12, 9, 6, 3]))),
                   (''pagination'',
                      JObj [(''page'', JNum 1), (''limit'', JNum 10),
                            (''total'', JNum 5), (''pages'', JNum 1)])]),
          busy_db)
   \<and> (\<exists>r. list_tasks ann completed_only (tasks busy_db) = Inr r
          \<and> p_page r = Some 1 \<and> p_limit r = Some 10 \<and> length (p_items r) \<le> 10)
   \<and> list_tasks ann (page_two\<lparr>q_page := None, q_limit := None\<rparr>) (tasks busy_db)
       = Inr \<lparr>p_items = map numbered_task [15, 14, 13, 12, 11, 10, 9, 8, 7, 6],
              p_page = Some 1, p_limit = Some 10, p_total = 15, p_pages = Some 2\<rparr>"
proof -
  let ?done = "filter (\<lambda>t. owner t = user_id ann \<and> status t = ''completed'') (tasks busy_db)"
  have n: "length (filter (\<lambda>t. owner t = user_id ann) (tasks busy_db)) = 15" by code_simp
  have a: "length (tasks busy_db) = 16" by code_simp
  have g: "get_tasks ann page_two busy_db
       = (Response 200
            (JObj [(''tasks'', JArr (map task_json (map numbered_task [5, 4, 3, 2, 1]))),
                   (''pagination'',
                      JObj [(''page'', JNum 2), (''limit'', JNum 10),
                            (''total'', JNum 15), (''pages'', JNum 2)])]),
          busy_db)" by code_simp
  have c: "get_tasks ann completed_only busy_db
       = (Response 200
            (JObj [(''tasks'', JArr (map task_json (map numbered_task [15, 12, 9, 6, 3]))),
                   (''pagination'',
                      JObj [(''page'', JNum 1), (''limit'', JNum 10),
                            (''total'', JNum 5), (''pages'', JNum 1)])]),
          busy_db)" by code_simp
  have d: "list_tasks ann (page_two\<lparr>q_page := None, q_limit := None\<rparr>) (tasks busy_db)
       = Inr \<lparr>p_items = map numbered_task [15, 14, 13, 12, 11, 10, 9, 8, 7, 6],
              p_page = Some 1, p_limit = Some 10, p_total = 15, p_pages = Some 2\<rparr>" by code_simp
  have pg: "(case q_page completed_only of None \<Rightarrow> Num 1 | Some s \<Rightarrow> parseInt s) = Num 1" by code_simp
  have lm: "(case q_limit completed_only of None \<Rightarrow> Num 10 | Some s \<Rightarrow> parseInt s) = Num 10" by code_simp
  have sm: "(1::int) * 10 < 2 ^ 53" by simp
  have key: "(case q_sortBy completed_only of None \<Rightarrow> ''createdAt'' | Some f \<Rightarrow> f)
        \<in> set [''_id'', ''title'', ''description'', ''status'', ''priority'', ''dueDate'',
                ''owner'', ''createdAt'', ''updatedAt'']" by code_simp
  have five: "int (length ?done) = 5" by code_simp
  then have few: "int (length ?done) < 2 ^ 53" by simp
  have so: "q_sortBy completed_only = None \<and> q_sortOrder completed_only = None" by code_simp
  have df: "q_page completed_only = None \<and> q_limit completed_only = None" by code_simp
  have pe: "(\<lambda>t. owner t = user_id ann
               \<and> (\<forall>s. q_status completed_only = Some s \<and> s \<noteq> [] \<longrightarrow> status t = s)
               \<and> (\<forall>s. q_priority completed_only = Some s \<and> s \<noteq> [] \<longrightarrow> priority t = s))
          = (\<lambda>t. owner t = user_id ann \<and> status t = ''completed'')"
    by (rule ext) (simp add: completed_only_def)
  note t = list_tasks_pagination [of ann busy_db page_two]
  note t' = list_tasks_pagination [of ann busy_db completed_only]
  from mp [OF conjunct1 [OF t] n]
  have 1: "\<exists>xs. get_tasks ann page_two busy_db
          = (Response 200
               (JObj [(''tasks'', JArr (map task_json xs)),
                      (''pagination'',
                         JObj [(''page'', JNum 2), (''limit'', JNum 10),
                               (''total'', JNum 15), (''pages'', JNum 2)])]),
             busy_db)
        \<and> length xs = 5 \<and> list_all (\<lambda>t. t \<in> set (tasks busy_db) \<and> owner t = user_id ann) xs" .
  note gen = conjunct1 [OF conjunct2 [OF t']]
  note inst = spec [OF spec [OF spec [OF gen, where x = 1], where x = 10], where x = ?done]
  from inst [unfolded pe] pg lm sm key few
  have "\<exists>ys. mset ys = mset ?done
          \<and> (q_sortBy completed_only = None \<and> q_sortOrder completed_only = None \<longrightarrow>
                sorted_wrt (\<lambda>a b. createdAt b \<le> createdAt a) ys)
          \<and> get_tasks ann completed_only busy_db
              = (Response 200
                   (JObj [(''tasks'', JArr (map task_json (take (nat 10) (drop (nat ((1 - 1) * 10)) ys)))),
                          (''pagination'',
                             JObj [(''page'', JNum 1), (''limit'', JNum 10),
                                   (''total'', JNum (int (length ?done))),
                                   (''pages'', JNum \<lceil>real (length ?done) / real_of_int 10\<rceil>)])]),
                 busy_db)"
    by simp
  with so
  have 2: "\<exists>ys. mset ys = mset ?done
          \<and> sorted_wrt (\<lambda>a b. createdAt b \<le> createdAt a) ys
          \<and> get_tasks ann completed_only busy_db
              = (Response 200
                   (JObj [(''tasks'', JArr (map task_json (take (nat 10) (drop (nat ((1 - 1) * 10)) ys)))),
                          (''pagination'',
                             JObj [(''page'', JNum 1), (''limit'', JNum 10),
                                   (''total'', JNum (int (length ?done))),
                                   (''pages'', JNum \<lceil>real (length ?done) / real_of_int 10\<rceil>)])]),
                 busy_db)"
    by blast
  from conjunct2 [OF conjunct2 [OF t']] df key
  have 3: "\<exists>r. list_tasks ann completed_only (tasks busy_db) = Inr r
          \<and> p_page r = Some 1 \<and> p_limit r = Some 10 \<and> length (p_items r) \<le> 10"
    by blast
  from n a g 1 pg lm sm key five 2 c 3 d show ?thesis by blast
qed

text \<open>
  Outside these bounds the route does what the numbers and the database make of the
  parameters: an empty sort field, an operator as sort field and page 0 (a negative
  skip) are refused by the database, and the error goes to the error handler; a limit
  is reported as the double it reads as; a negative limit limits by its absolute value
  and gives negative pages; with limit 0 or a limit that is no number there is no limit
  and the pages are not a finite number (\<^verbatim>\<open>null\<close> in the response).
\<close>

lemma list_examples:
  "get_tasks ann (completed_only\<lparr>q_sortBy := Some []\<rparr>) busy_db = (NextError QueryFailed, busy_db)
   \<and> get_tasks ann (completed_only\<lparr>q_sortBy := Some ''$where''\<rparr>) busy_db = (NextError QueryFailed, busy_db)
   \<and> get_tasks ann (completed_only\<lparr>q_page := Some ''0''\<rparr>) busy_db = (NextError QueryFailed, busy_db)
   \<and> list_tasks ann (completed_only\<lparr>q_sortBy := Some ''title'', q_sortOrder := Some ''asc'',
                                       q_page := Some ''2'', q_limit := Some ''0x2''\<rparr>) (tasks busy_db)
       = Inr \<lparr>p_items = map numbered_task [9, 12], p_page = Some 2, p_limit = Some 2,
              p_total = 5, p_pages = Some 3\<rparr>
   \<and> list_tasks ann (completed_only\<lparr>q_limit := Some ''9007199254740993''\<rparr>) (tasks busy_db)
       = Inr \<lparr>p_items = map numbered_task [15, 12, 9, 6, 3], p_page = Some 1,
              p_limit = Some 9007199254740992, p_total = 5, p_pages = Some 1\<rparr>
   \<and> list_tasks ann (completed_only\<lparr>q_limit := Some ''-2''\<rparr>) (tasks busy_db)
       = Inr \<lparr>p_items = map numbered_task [15, 12], p_page = Some 1,
              p_limit = Some (- 2), p_total = 5, p_pages = Some (- 2)\<rparr>
   \<and> list_tasks ann (completed_only\<lparr>q_limit := Some ''0''\<rparr>) (tasks busy_db)
       = Inr \<lparr>p_items = map numbered_task [15, 12, 9, 6, 3], p_page = Some 1,
              p_limit = Some 0, p_total = 5, p_pages = None\<rparr>
   \<and> list_tasks ann (completed_only\<lparr>q_limit := Some ''ten''\<rparr>) (tasks busy_db)
       = Inr \<lparr>p_items = map numbered_task [15, 12, 9, 6, 3], p_page = Some 1,
              p_limit = None, p_total = 5, p_pages = None\<rparr>"
  by code_simp

end
